(* ===== verification/Prelude.thy ===== *)
theory Prelude
  imports Main "HOL-Library.Word" "HOL-Library.Sublist"
begin

text \<open>
  Shared vocabulary of the tcpuart development: the machine integers of the Rust sources, the
  value types that stand for Rust's \<open>Result\<close>, \<open>io::Error\<close> and panics, slices of arrays with
  their bounds check, the big-endian layout of \<open>u16\<close> and \<open>u32\<close> on the wire, and the collections
  of rewrite rules that the component theories add to.

  Conventions used everywhere:
  \<^item> a Rust function that can panic returns an \<open>'a exec\<close>, where \<^term>\<open>None\<close> is the panic;
  \<^item> a Rust \<open>Result<T, E>\<close> is the datatype \<open>(T, E) Result\<close> with the constructors of the source;
  \<^item> a \<open>&mut\<close> argument is an argument and a component of the result.
\<close>

section \<open>Collections of rewrite rules\<close>

named_theorems task_defs \<open>definitions of the steps of the connection task\<close>
named_theorems history_defs \<open>invariant and histories of the connection task\<close>
named_theorems daemon_defs \<open>definitions of the handlers of the daemon\<close>

section \<open>Integers, results and errors\<close>

type_synonym u8 = "8 word"
type_synonym u16 = "16 word"
type_synonym u32 = "32 word"

type_synonym 'a exec = "'a option"

abbreviation (input) panic :: "'a exec" where
  "panic \<equiv> None"

datatype ('a, 'e) Result = Ok 'a | Err 'e

text \<open>
  The kinds of \<open>std::io::ErrorKind\<close> that the sources name or that a retry depends on; every other kind, as the operating
  system reports it, is \<open>OsError\<close> with its number.
\<close>

datatype ErrorKind =
    InvalidData | InvalidInput | NotConnected | ConnectionAborted | UnexpectedEof | WouldBlock
  | OsError nat

datatype io_error = IoError (err_kind: ErrorKind) (err_msg: string)

fun is_ok :: "('a, 'e) Result \<Rightarrow> bool" where
  "is_ok (Ok _) = True"
| "is_ok (Err _) = False"

section \<open>Slices and arrays\<close>

text \<open>\<open>&xs[..n]\<close> panics when \<open>n\<close> is greater than the length of \<open>xs\<close>.\<close>

definition slice_to :: "'a list \<Rightarrow> nat \<Rightarrow> 'a list exec" where
  "slice_to xs n = (if n \<le> length xs then Some (take n xs) else panic)"

text \<open>
  \<open>xs[..n].copy_from_slice(ys)\<close> overwrites a prefix and panics when the range is out of bounds
  or when \<open>ys\<close> is not exactly as long as the range.
\<close>

definition copy_prefix :: "'a list \<Rightarrow> nat \<Rightarrow> 'a list \<Rightarrow> 'a list exec" where
  "copy_prefix xs n ys = (if n \<le> length xs \<and> length ys = n then Some (ys @ drop n xs) else panic)"

section \<open>Big-endian layout\<close>

definition be16 :: "u16 \<Rightarrow> u8 list" where
  "be16 v = [ucast (drop_bit 8 v), ucast v]"

definition be32 :: "u32 \<Rightarrow> u8 list" where
  "be32 v = [ucast (drop_bit 24 v), ucast (drop_bit 16 v), ucast (drop_bit 8 v), ucast v]"

definition of_be16 :: "u8 \<Rightarrow> u8 \<Rightarrow> u16" where
  "of_be16 a b = or (push_bit 8 (ucast a)) (ucast b)"

definition of_be32 :: "u8 \<Rightarrow> u8 \<Rightarrow> u8 \<Rightarrow> u8 \<Rightarrow> u32" where
  "of_be32 a b c d =
     or (push_bit 24 (ucast a)) (or (push_bit 16 (ucast b)) (or (push_bit 8 (ucast c)) (ucast d)))"

section \<open>Generic lemmas\<close>

lemma slice_to_Some_iff: "slice_to xs n = Some ys \<longleftrightarrow> n \<le> length xs \<and> ys = take n xs"
  by (auto simp: slice_to_def)

lemma slice_to_ok [simp]: "n \<le> length xs \<Longrightarrow> slice_to xs n = Some (take n xs)"
  by (simp add: slice_to_def)

lemma copy_prefix_ok [simp]:
  "n \<le> length xs \<Longrightarrow> length ys = n \<Longrightarrow> copy_prefix xs n ys = Some (ys @ drop n xs)"
  by (simp add: copy_prefix_def)

lemma length_be16 [simp]: "length (be16 v) = 2"
  by (simp add: be16_def)

lemma length_be32 [simp]: "length (be32 v) = 4"
  by (simp add: be32_def)

lemma of_be16_be16 [simp]: "of_be16 (ucast (drop_bit 8 v)) (ucast v) = v"
  unfolding of_be16_def by (rule bit_word_eqI) (auto simp: bit_simps)

lemma of_be32_be32 [simp]:
  "of_be32 (ucast (drop_bit 24 v)) (ucast (drop_bit 16 v)) (ucast (drop_bit 8 v)) (ucast v) = v"
proof (rule bit_word_eqI)
  fix n assume "n < LENGTH(32)"
  then consider "n < 8" | "8 \<le> n \<and> n < 16" | "16 \<le> n \<and> n < 24" | "24 \<le> n \<and> n < 32"
    by fastforce
  then show "bit (of_be32 (ucast (drop_bit 24 v)) (ucast (drop_bit 16 v)) (ucast (drop_bit 8 v)) (ucast v)) n
      = bit v n"
    unfolding of_be32_def by cases (auto simp: bit_simps)
qed

lemma be16_of_be16 [simp]: "be16 (of_be16 a b) = [a, b]"
proof -
  have "ucast (drop_bit 8 (of_be16 a b)) = a"
    unfolding of_be16_def by (rule bit_word_eqI) (auto simp: bit_simps dest: bit_imp_le_length)
  moreover have "ucast (of_be16 a b) = b"
    unfolding of_be16_def by (rule bit_word_eqI) (auto simp: bit_simps)
  ultimately show ?thesis by (simp add: be16_def)
qed

lemma be32_of_be32 [simp]: "be32 (of_be32 a b c d) = [a, b, c, d]"
proof -
  have "ucast (drop_bit 24 (of_be32 a b c d)) = a"
    unfolding of_be32_def by (rule bit_word_eqI) (auto simp: bit_simps dest: bit_imp_le_length)
  moreover have "ucast (drop_bit 16 (of_be32 a b c d)) = b"
    unfolding of_be32_def by (rule bit_word_eqI) (auto simp: bit_simps dest: bit_imp_le_length)
  moreover have "ucast (drop_bit 8 (of_be32 a b c d)) = c"
    unfolding of_be32_def by (rule bit_word_eqI) (auto simp: bit_simps dest: bit_imp_le_length)
  moreover have "ucast (of_be32 a b c d) = d"
    unfolding of_be32_def by (rule bit_word_eqI) (auto simp: bit_simps)
  ultimately show ?thesis by (simp add: be32_def)
qed

lemma unat_u8_le [simp]: "unat (b :: u8) \<le> 255"
  using unsigned_less [of b, where 'a = nat] by simp

lemma unat_u8_less [simp]: "unat (b :: u8) < 256"
  using unsigned_less [of b, where 'a = nat] by simp

lemma unat_of_nat_u8 [simp]: "n \<le> 255 \<Longrightarrow> unat (of_nat n :: u8) = n"
  by (simp add: unat_of_nat)

lemma unat_of_nat_u16 [simp]: "n \<le> 65535 \<Longrightarrow> unat (of_nat n :: u16) = n"
  by (simp add: unat_of_nat)

lemma u8_not_greater_1: "\<not> 1 < (b :: u8) \<longleftrightarrow> b = 0 \<or> b = 1"
proof -
  have "\<not> 1 < b \<longleftrightarrow> unat b = 0 \<or> unat b = 1"
    by (auto simp: word_less_nat_alt)
  moreover have "unat b = 0 \<longleftrightarrow> b = 0" using word_unat_eq_iff [of b 0] by simp
  moreover have "unat b = 1 \<longleftrightarrow> b = 1" using word_unat_eq_iff [of b 1] by simp
  ultimately show ?thesis by simp
qed

lemma length_ge_8E:
  assumes "8 \<le> length xs"
  obtains a b c d e f g h r where "xs = [a, b, c, d, e, f, g, h] @ r"
  using assms by (auto simp: numeral_eq_Suc Suc_le_length_iff)

lemma prefix_concat:
  "prefix p (concat ws) \<Longrightarrow>
    \<exists>k q. k \<le> length ws \<and> p = concat (take k ws) @ q \<and> (q = [] \<or> k < length ws \<and> strict_prefix q (ws ! k))"
proof (induction ws arbitrary: p)
  case (Cons w ws)
  show ?case
  proof (cases "strict_prefix p w")
    case True
    then show ?thesis by (intro exI [of _ 0] exI [of _ p]) simp
  next
    case False
    with Cons.prems obtain p' where "p = w @ p'" "prefix p' (concat ws)" by (auto simp: prefix_append strict_prefix_def)
    with Cons.IH [of p'] obtain k q where "k \<le> length ws" "p = concat (take (Suc k) (w # ws)) @ q"
      "q = [] \<or> k < length ws \<and> strict_prefix q (ws ! k)" by auto
    then show ?thesis by (intro exI [of _ "Suc k"] exI [of _ q]) auto
  qed
qed auto

lemma filter_prefix: "prefix xs ys \<Longrightarrow> prefix (filter P xs) (filter P ys)"
  by (auto simp: prefix_def)

lemma concat_map_prefix: "prefix xs ys \<Longrightarrow> prefix (concat (map f xs)) (concat (map f ys))"
  by (auto simp: prefix_def)

section \<open>Tasks driven by a list of inputs\<close>

text \<open>
  The tasks of the daemon are loops that take one input (the outcome of one \<open>select!\<close> and of the
  awaits in its branch) after another. \<open>Suspended\<close> means that the input ends before the operation
  does, \<open>Panicked\<close> is a panic. The locale is what a loop needs of its step so that all its runs
  keep an invariant and never panic: each step does, on the inputs the environment can give.
\<close>

datatype 'a outcome = Suspended | Panicked | Done 'a

locale task_loop =
  fixes step :: "'s \<Rightarrow> 'i \<Rightarrow> ('s \<times> 'e list) outcome"
    and admissible :: "'i \<Rightarrow> bool"
    and inv :: "'s \<Rightarrow> bool"
  assumes step_inv: "inv s \<Longrightarrow> admissible i \<Longrightarrow> step s i = Done (s', es) \<Longrightarrow> inv s'"
    and step_safe: "inv s \<Longrightarrow> admissible i \<Longrightarrow> step s i \<noteq> Panicked"
begin

primrec run :: "'s \<Rightarrow> 'i list \<Rightarrow> ('s \<times> 'e list) outcome" where
  "run s [] = Done (s, [])"
| "run s (i # is) =
     (case step s i of
        Suspended \<Rightarrow> Suspended
      | Panicked \<Rightarrow> Panicked
      | Done (s', es) \<Rightarrow>
          (case run s' is of
             Suspended \<Rightarrow> Suspended
           | Panicked \<Rightarrow> Panicked
           | Done (s'', es') \<Rightarrow> Done (s'', es @ es')))"

lemma run_inv: "inv s \<Longrightarrow> list_all admissible is \<Longrightarrow> run s is = Done (s', es) \<Longrightarrow> inv s'"
proof (induction "is" arbitrary: s es)
  case (Cons i "is")
  then obtain s1 es1 es2 where "step s i = Done (s1, es1)" "run s1 is = Done (s', es2)"
    by (auto split: outcome.splits)
  with Cons show ?case using step_inv [of s i s1 es1] by auto
qed simp

lemma run_safe: "inv s \<Longrightarrow> list_all admissible is \<Longrightarrow> run s is \<noteq> Panicked"
proof (induction "is" arbitrary: s)
  case (Cons i "is")
  then show ?case using step_safe [of s i] by (auto split: outcome.splits dest: step_inv)
qed simp

end

section \<open>Simulations\<close>

text \<open>A step of the concrete system is any number of steps of the abstract one, also none; so are all its runs.\<close>

locale simulation =
  fixes concrete :: "'c \<Rightarrow> 'c \<Rightarrow> bool" and abstract :: "'a \<Rightarrow> 'a \<Rightarrow> bool" and sim :: "'c \<Rightarrow> 'a \<Rightarrow> bool"
  assumes simulated: "sim c a \<Longrightarrow> concrete c c' \<Longrightarrow> \<exists>a'. abstract\<^sup>*\<^sup>* a a' \<and> sim c' a'"
begin

lemma run_simulated: "concrete\<^sup>*\<^sup>* c c' \<Longrightarrow> sim c a \<Longrightarrow> \<exists>a'. abstract\<^sup>*\<^sup>* a a' \<and> sim c' a'"
proof (induction rule: rtranclp_induct)
  case (step c1 c2)
  then show ?case using simulated by (meson rtranclp_trans)
qed blast

end

end
