(* ===== verification/Rust_Std.thy ===== *)
theory Rust_Std
  imports Prelude
begin

text \<open>
  The parts of Rust's standard library that the sources use and whose behaviour the properties
  depend on: \<open>String\<close> (its bytes, literals, \<open>format!\<close>, the decimal \<open>Display\<close> of integers,
  \<open>String::from_utf8\<close> and \<open>String::from_utf8_lossy\<close>), \<open>io::Cursor\<close>, \<open>Duration\<close> and \<open>Vec::swap_remove\<close>.

  A Rust \<open>String\<close> is its bytes, so that \<open>len()\<close> is the number of bytes and \<open>as_bytes()\<close> the
  identity; the type's promise, that the bytes are UTF-8, is the predicate \<open>utf8_valid\<close>.
\<close>

section \<open>Strings\<close>

type_synonym rstring = "u8 list"

text \<open>A string literal of the source (all of them are ASCII), as its bytes.\<close>

definition lit :: "string \<Rightarrow> rstring" where
  "lit s = map of_char s"

text \<open>The bytes a UTF-8 sequence may continue with, and the table of well-formed sequences.\<close>

definition utf8_cont :: "u8 \<Rightarrow> bool" where
  "utf8_cont b \<longleftrightarrow> 0x80 \<le> b \<and> b \<le> 0xBF"

definition utf8_second3 :: "u8 \<Rightarrow> u8 \<Rightarrow> bool" where
  "utf8_second3 b0 b1 \<longleftrightarrow>
     (if b0 = 0xE0 then 0xA0 \<le> b1 \<and> b1 \<le> 0xBF
      else if b0 = 0xED then 0x80 \<le> b1 \<and> b1 \<le> 0x9F
      else utf8_cont b1)"

definition utf8_second4 :: "u8 \<Rightarrow> u8 \<Rightarrow> bool" where
  "utf8_second4 b0 b1 \<longleftrightarrow>
     (if b0 = 0xF0 then 0x90 \<le> b1 \<and> b1 \<le> 0xBF
      else if b0 = 0xF4 then 0x80 \<le> b1 \<and> b1 \<le> 0x8F
      else utf8_cont b1)"

text \<open>The number of bytes that a first byte announces; \<open>0\<close> for a byte that starts no sequence.\<close>

definition utf8_width :: "u8 \<Rightarrow> nat" where
  "utf8_width b =
     (if b \<le> 0x7F then 1
      else if 0xC2 \<le> b \<and> b \<le> 0xDF then 2
      else if 0xE0 \<le> b \<and> b \<le> 0xEF then 3
      else if 0xF0 \<le> b \<and> b \<le> 0xF4 then 4
      else 0)"

text \<open>
  \<open>utf8_seq bs\<close> is the length of the well-formed sequence that \<open>bs\<close> starts with, and \<open>0\<close> when
  it starts with none.
\<close>

fun utf8_seq :: "u8 list \<Rightarrow> nat" where
  "utf8_seq [] = 0"
| "utf8_seq (b0 # bs) =
     (if utf8_width b0 = 1 then 1
      else if utf8_width b0 = 2 then
        (case bs of b1 # _ \<Rightarrow> if utf8_cont b1 then 2 else 0 | _ \<Rightarrow> 0)
      else if utf8_width b0 = 3 then
        (case bs of b1 # b2 # _ \<Rightarrow> if utf8_second3 b0 b1 \<and> utf8_cont b2 then 3 else 0 | _ \<Rightarrow> 0)
      else if utf8_width b0 = 4 then
        (case bs of b1 # b2 # b3 # _ \<Rightarrow>
           if utf8_second4 b0 b1 \<and> utf8_cont b2 \<and> utf8_cont b3 then 4 else 0 | _ \<Rightarrow> 0)
      else 0)"

function utf8_valid :: "u8 list \<Rightarrow> bool" where
  "utf8_valid bs =
     (if bs = [] then True
      else if utf8_seq bs = 0 then False
      else utf8_valid (drop (utf8_seq bs) bs))"
  by pat_completeness auto
termination
  by (relation "measure length") auto

text \<open>\<open>String::from_utf8\<close>; the error value is dropped at its only use.\<close>

definition from_utf8 :: "u8 list \<Rightarrow> (rstring, unit) Result" where
  "from_utf8 bs = (if utf8_valid bs then Ok bs else Err ())"

text \<open>
  \<open>String::from_utf8_lossy\<close>: where no well-formed sequence starts, the longest part that could have begun
  one, and at least one byte, is replaced by U+FFFD, whose encoding has three bytes.
\<close>

fun utf8_bad :: "u8 list \<Rightarrow> nat" where
  "utf8_bad (b0 # b1 # bs) =
     (if utf8_width b0 = 3 \<and> utf8_second3 b0 b1 then 2
      else if utf8_width b0 = 4 \<and> utf8_second4 b0 b1
        then (case bs of b2 # _ \<Rightarrow> if utf8_cont b2 then 3 else 2 | [] \<Rightarrow> 2)
      else 1)"
| "utf8_bad _ = 1"

function from_utf8_lossy :: "u8 list \<Rightarrow> rstring" where
  "from_utf8_lossy bs =
     (if bs = [] then []
      else if utf8_seq bs = 0 then [0xEF, 0xBF, 0xBD] @ from_utf8_lossy (drop (utf8_bad bs) bs)
      else take (utf8_seq bs) bs @ from_utf8_lossy (drop (utf8_seq bs) bs))"
  by pat_completeness auto
termination
proof (relation "measure length")
  have "0 < utf8_bad bs" for bs by (cases bs rule: utf8_bad.cases) (auto split: list.split)
  then show "\<And>bs. bs \<noteq> [] \<Longrightarrow> utf8_seq bs = 0 \<Longrightarrow> (drop (utf8_bad bs) bs, bs) \<in> measure length" by simp
qed auto

text \<open>The decimal \<open>Display\<close> of an unsigned integer.\<close>

fun show_nat :: "nat \<Rightarrow> string" where
  "show_nat n = (if n < 10 then [char_of (48 + n)] else show_nat (n div 10) @ [char_of (48 + n mod 10)])"

section \<open>Cursors, durations and vectors\<close>

text \<open>\<open>io::Cursor\<close> over a byte buffer.\<close>

record Cursor =
  inner :: "u8 list"
  position :: nat

definition Cursor_new :: "u8 list \<Rightarrow> Cursor" where
  "Cursor_new bs = \<lparr>inner = bs, position = 0\<rparr>"

definition rest :: "Cursor \<Rightarrow> u8 list" where
  "rest c = drop (position c) (inner c)"

text \<open>
  A \<open>Duration\<close> is its length in milliseconds (the sources make no finer one). It holds at most
  \<open>u64::MAX\<close> seconds; \<open>Duration * u32\<close> panics beyond that.
\<close>

type_synonym Duration = nat

definition Duration_MAX :: Duration where
  "Duration_MAX = (2 ^ 64 - 1) * 1000 + 999"

definition Duration_mul :: "Duration \<Rightarrow> nat \<Rightarrow> Duration exec" where
  "Duration_mul d k = (if d * k \<le> Duration_MAX then Some (d * k) else panic)"

text \<open>
  \<open>Vec::swap_remove(i)\<close> takes element \<open>i\<close> out and moves the last element into its place; it
  panics when \<open>i\<close> is out of bounds. \<open>iter().position(p)\<close> is the first index where \<open>p\<close> holds.
\<close>

definition swap_remove :: "'a list \<Rightarrow> nat \<Rightarrow> ('a \<times> 'a list) exec" where
  "swap_remove xs i =
     (if i < length xs then Some (xs ! i, butlast (xs[i := last xs])) else panic)"

primrec position_of :: "('a \<Rightarrow> bool) \<Rightarrow> 'a list \<Rightarrow> nat option" where
  "position_of p [] = None"
| "position_of p (x # xs) = (if p x then Some 0 else map_option Suc (position_of p xs))"

section \<open>Lemmas\<close>

declare utf8_valid.simps [simp del] and from_utf8_lossy.simps [simp del]

lemma utf8_valid_Nil [simp]: "utf8_valid []"
  by (simp add: utf8_valid.simps)

lemma utf8_seq_le: "utf8_seq bs \<le> length bs"
  by (cases bs) (simp_all split: list.split)

lemma utf8_seq_append: "utf8_seq bs \<noteq> 0 \<Longrightarrow> utf8_seq (bs @ cs) = utf8_seq bs"
  by (cases bs) (simp_all split: list.splits if_split_asm)

lemma utf8_valid_append: "utf8_valid bs \<Longrightarrow> utf8_valid (bs @ cs) = utf8_valid cs"
proof (induction bs rule: utf8_valid.induct)
  case (1 bs)
  show ?case
  proof (cases "bs = []")
    case False
    with "1.prems" have nz: "utf8_seq bs \<noteq> 0" and v: "utf8_valid (drop (utf8_seq bs) bs)"
      by (simp_all add: utf8_valid.simps [of bs] split: if_splits)
    have "utf8_valid (bs @ cs) = utf8_valid (drop (utf8_seq bs) bs @ cs)"
      using False nz utf8_seq_le [of bs]
      by (simp add: utf8_valid.simps [of "bs @ cs"] utf8_seq_append)
    with "1.IH" [OF False nz v] show ?thesis by simp
  qed simp
qed

lemma utf8_valid_ascii: "\<forall>b \<in> set bs. b \<le> 0x7F \<Longrightarrow> utf8_valid bs"
  by (induction bs) (simp_all add: utf8_valid.simps utf8_width_def)

lemma utf8_valid_appendI [simp]:
  "utf8_valid bs \<Longrightarrow> utf8_valid cs \<Longrightarrow> utf8_valid (bs @ cs)"
  by (simp add: utf8_valid_append)

lemma from_utf8_lossy_valid: "utf8_valid bs \<Longrightarrow> from_utf8_lossy bs = bs"
proof (induction bs rule: from_utf8_lossy.induct)
  case (1 bs)
  then show ?case by (cases "bs = []") (simp_all add: from_utf8_lossy.simps [of bs] from_utf8_lossy.simps [of "[]"]
      utf8_valid.simps [of bs] split: if_splits)
qed

lemma utf8_seq_take: "utf8_seq (take (utf8_seq bs) bs) = utf8_seq bs"
  by (cases bs) (auto split: list.split)

lemma utf8_valid_take_seq: "utf8_seq bs \<noteq> 0 \<Longrightarrow> utf8_valid (take (utf8_seq bs) bs)"
  using utf8_seq_le [of bs] by (auto simp: utf8_valid.simps [of "take (utf8_seq bs) bs"] utf8_seq_take)

lemma utf8_valid_from_utf8_lossy: "utf8_valid (from_utf8_lossy bs)"
proof (induction bs rule: from_utf8_lossy.induct)
  case (1 bs)
  have "utf8_valid ([0xEF, 0xBF, 0xBD] :: u8 list)" by code_simp
  from utf8_valid_appendI [OF this] 1 show ?case
    by (cases "utf8_seq bs = 0")
      (auto simp: from_utf8_lossy.simps [of bs] utf8_valid_take_seq simp del: append_Cons append_Nil)
qed

lemma length_lit [simp]: "length (lit s) = length s"
  by (simp add: lit_def)

lemma position_of_eq_Some:
  "position_of p xs = Some i \<Longrightarrow> i < length xs \<and> p (xs ! i) \<and> (\<forall>j < i. \<not> p (xs ! j))"
proof (induction xs arbitrary: i)
  case (Cons x xs)
  then show ?case
    by (cases i) (auto split: if_splits simp: less_Suc_eq_0_disj)
qed simp

lemma position_of_None_iff: "position_of p xs = None \<longleftrightarrow> (\<forall>x \<in> set xs. \<not> p x)"
  by (induction xs) auto

lemma swap_remove_ok:
  "i < length xs \<Longrightarrow> swap_remove xs i = Some (xs ! i, butlast (xs[i := last xs]))"
  by (simp add: swap_remove_def)

end
