(* ===== verification/Framing.thy ===== *)
theory Framing
  imports Rust_Std
begin

text \<open>
  Byte buffers and framed streams.

  The codecs read and write buffers through the \<open>bytes\<close> crate, which is not part of the
  repository. Its operations are the parameter \<open>bytes_api\<close> of every codec, and what its
  documentation promises is the locale \<open>bytes_crate\<close>: \<open>put_*\<close> appends, integers are big-endian,
  a \<open>try_*\<close> read fails exactly when too few bytes remain, \<open>copy_to_slice\<close> and \<open>advance\<close> panic in
  that case. A \<open>BytesMut\<close> is its contents.

  The locale \<open>frame_decoder\<close> is the contract of \<open>tokio_util::codec::Decoder\<close> as the sources rely
  on it, and \<open>stream_codec\<close> adds the encoder. \<open>drain\<close> is what a framed reader does with its
  buffer by that contract (call \<open>decode\<close> until it wants more bytes or fails); the lemmas show that
  the messages a reader gets do not depend on how the transport cuts the bytes into chunks.
\<close>

section \<open>The interface of the bytes crate\<close>

type_synonym BytesMut = "u8 list"

record bytes_api =
  reserve :: "nat \<Rightarrow> BytesMut \<Rightarrow> BytesMut"
  put_u8 :: "u8 \<Rightarrow> BytesMut \<Rightarrow> BytesMut"
  put_u16 :: "u16 \<Rightarrow> BytesMut \<Rightarrow> BytesMut"
  put_u32 :: "u32 \<Rightarrow> BytesMut \<Rightarrow> BytesMut"
  put_slice :: "u8 list \<Rightarrow> BytesMut \<Rightarrow> BytesMut"
  advance :: "nat \<Rightarrow> BytesMut \<Rightarrow> BytesMut exec"
  remaining :: "Cursor \<Rightarrow> nat"
  try_get_u8 :: "Cursor \<Rightarrow> (u8 \<times> Cursor) option"
  try_get_u16 :: "Cursor \<Rightarrow> (u16 \<times> Cursor) option"
  try_get_u32 :: "Cursor \<Rightarrow> (u32 \<times> Cursor) option"
  try_copy_to_slice :: "nat \<Rightarrow> Cursor \<Rightarrow> (u8 list \<times> Cursor) option"
  copy_to_slice :: "nat \<Rightarrow> Cursor \<Rightarrow> (u8 list \<times> Cursor) exec"

text \<open>The cursor after \<open>n\<close> more bytes have been read.\<close>

definition skip :: "nat \<Rightarrow> Cursor \<Rightarrow> Cursor" where
  "skip n c = c\<lparr>position := position c + n\<rparr>"

text \<open>An implementation over plain lists, the instance used for evaluation.\<close>

definition bytes_ref :: bytes_api where
  "bytes_ref = \<lparr>
     reserve = (\<lambda>n dst. dst),
     put_u8 = (\<lambda>v dst. dst @ [v]),
     put_u16 = (\<lambda>v dst. dst @ be16 v),
     put_u32 = (\<lambda>v dst. dst @ be32 v),
     put_slice = (\<lambda>bs dst. dst @ bs),
     advance = (\<lambda>n src. if n \<le> length src then Some (drop n src) else panic),
     remaining = (\<lambda>c. length (rest c)),
     try_get_u8 = (\<lambda>c. case rest c of a # _ \<Rightarrow> Some (a, skip 1 c) | _ \<Rightarrow> None),
     try_get_u16 = (\<lambda>c. case rest c of a # b # _ \<Rightarrow> Some (of_be16 a b, skip 2 c) | _ \<Rightarrow> None),
     try_get_u32 = (\<lambda>c. case rest c of a # b # d # e # _ \<Rightarrow> Some (of_be32 a b d e, skip 4 c)
                                     | _ \<Rightarrow> None),
     try_copy_to_slice = (\<lambda>n c. if n \<le> length (rest c) then Some (take n (rest c), skip n c) else None),
     copy_to_slice = (\<lambda>n c. if n \<le> length (rest c) then Some (take n (rest c), skip n c) else panic)\<rparr>"

section \<open>Framed streams\<close>

type_synonym 'm decoded = "(('m option, io_error) Result \<times> BytesMut) exec"

datatype stream_end = Waiting BytesMut | Failed io_error | Crashed

text \<open>The guard on the length only stops a decoder that claims a message and consumes nothing.\<close>

function drain :: "(BytesMut \<Rightarrow> 'm decoded) \<Rightarrow> BytesMut \<Rightarrow> 'm list \<times> stream_end" where
  "drain dec src =
     (case dec src of
        None \<Rightarrow> ([], Crashed)
      | Some (Err e, src') \<Rightarrow> ([], Failed e)
      | Some (Ok None, src') \<Rightarrow> ([], Waiting src')
      | Some (Ok (Some m), src') \<Rightarrow>
          if length src' < length src
          then (case drain dec src' of (ms, fin) \<Rightarrow> (m # ms, fin))
          else ([m], Waiting src'))"
  by pat_completeness auto
termination
  by (relation "measure (\<lambda>(dec, src). length src)") auto

text \<open>
  A reader that gets the stream in chunks: after each chunk it drains its buffer, and it stops at
  the first failure.
\<close>

fun receive :: "(BytesMut \<Rightarrow> 'm decoded) \<Rightarrow> BytesMut \<Rightarrow> BytesMut list \<Rightarrow> 'm list \<times> stream_end" where
  "receive dec buf [] = ([], Waiting buf)"
| "receive dec buf (chunk # chunks) =
     (case drain dec (buf @ chunk) of
        (ms, Waiting buf') \<Rightarrow>
          (case receive dec buf' chunks of (ms', fin) \<Rightarrow> (ms @ ms', fin))
      | (ms, Failed e) \<Rightarrow> (ms, Failed e)
      | (ms, Crashed) \<Rightarrow> (ms, Crashed))"

text \<open>
  What a decoder may do on a buffer: wait and leave it alone; take a message off its front,
  whatever follows; or fail, whatever follows.
\<close>

definition framed_at :: "(BytesMut \<Rightarrow> 'm decoded) \<Rightarrow> BytesMut \<Rightarrow> bool" where
  "framed_at dec src \<longleftrightarrow>
     dec src = Some (Ok None, src)
     \<or> (\<exists>m pre r. src = pre @ r \<and> pre \<noteq> [] \<and> (\<forall>x. dec (src @ x) = Some (Ok (Some m), r @ x)))
     \<or> (\<exists>e. \<forall>x. dec (src @ x) = Some (Err e, src @ x))"

section \<open>What the crate promises\<close>

lemma rest_Cursor_new [simp]: "rest (Cursor_new bs) = bs"
  by (simp add: rest_def Cursor_new_def)

lemma position_Cursor_new [simp]: "position (Cursor_new bs) = 0"
  by (simp add: Cursor_new_def)

lemma rest_skip [simp]: "rest (skip n c) = drop n (rest c)"
  by (simp add: rest_def skip_def add.commute)

lemma position_skip [simp]: "position (skip n c) = position c + n"
  by (simp add: skip_def)

lemma inner_skip [simp]: "inner (skip n c) = inner c"
  by (simp add: skip_def)

locale bytes_crate =
  fixes B :: bytes_api
  assumes reserve [simp]: "reserve B n dst = dst"
    and put_u8 [simp]: "put_u8 B v dst = dst @ [v]"
    and put_u16 [simp]: "put_u16 B w dst = dst @ be16 w"
    and put_u32 [simp]: "put_u32 B x dst = dst @ be32 x"
    and put_slice [simp]: "put_slice B bs dst = dst @ bs"
    and advance [simp]: "advance B n src = (if n \<le> length src then Some (drop n src) else panic)"
    and remaining [simp]: "remaining B c = length (rest c)"
    and try_get_u8: "try_get_u8 B c = (case rest c of a # _ \<Rightarrow> Some (a, skip 1 c) | _ \<Rightarrow> None)"
    and try_get_u16: "try_get_u16 B c =
      (case rest c of a # b # _ \<Rightarrow> Some (of_be16 a b, skip 2 c) | _ \<Rightarrow> None)"
    and try_get_u32: "try_get_u32 B c =
      (case rest c of a # b # d # e # _ \<Rightarrow> Some (of_be32 a b d e, skip 4 c) | _ \<Rightarrow> None)"
    and try_copy_to_slice: "try_copy_to_slice B n c =
      (if n \<le> length (rest c) then Some (take n (rest c), skip n c) else None)"
    and copy_to_slice: "copy_to_slice B n c =
      (if n \<le> length (rest c) then Some (take n (rest c), skip n c) else panic)"
begin

lemmas reads = try_get_u8 try_get_u16 try_get_u32 try_copy_to_slice copy_to_slice

end

interpretation ref: bytes_crate bytes_ref
  by unfold_locales (simp_all add: bytes_ref_def)

section \<open>The contract of a decoder, and what a reader gets\<close>

declare drain.simps [simp del]

locale frame_decoder =
  fixes dec :: "BytesMut \<Rightarrow> 'm decoded"
  assumes no_panic: "dec src \<noteq> panic"
    and item_consumes: "dec src = Some (Ok (Some m), src') \<Longrightarrow> suffix src' src \<and> src' \<noteq> src"
    and wait_keeps: "dec src = Some (Ok None, src') \<Longrightarrow> src' = src"
    and item_stable: "dec src = Some (Ok (Some m), src')
      \<Longrightarrow> dec (src @ extra) = Some (Ok (Some m), src' @ extra)"
    and error_stable: "dec src = Some (Err e, src') \<Longrightarrow> \<exists>src''. dec (src @ extra) = Some (Err e, src'')"
begin

lemma item_shorter: "dec src = Some (Ok (Some m), src') \<Longrightarrow> length src' < length src"
  using item_consumes suffix_length_less strict_suffix_def by metis

lemma drain_item:
  "dec src = Some (Ok (Some m), src')
   \<Longrightarrow> drain dec src = (m # fst (drain dec src'), snd (drain dec src'))"
  by (simp add: drain.simps [of dec src] item_shorter split: prod.split)

lemma drain_wait: "dec src = Some (Ok None, src') \<Longrightarrow> drain dec src = ([], Waiting src)"
  using wait_keeps by (auto simp: drain.simps [of dec src])

lemma drain_error: "dec src = Some (Err e, src') \<Longrightarrow> drain dec src = ([], Failed e)"
  by (simp add: drain.simps [of dec src])

lemma drain_cases [case_names Wait Error Item]:
  assumes "dec src = Some (Ok None, src) \<Longrightarrow> drain dec src = ([], Waiting src) \<Longrightarrow> P"
    and "\<And>e src'. dec src = Some (Err e, src') \<Longrightarrow> drain dec src = ([], Failed e) \<Longrightarrow> P"
    and "\<And>m src'. dec src = Some (Ok (Some m), src') \<Longrightarrow> length src' < length src
         \<Longrightarrow> drain dec src = (m # fst (drain dec src'), snd (drain dec src')) \<Longrightarrow> P"
  shows P
proof -
  obtain r src' where d: "dec src = Some (r, src')"
    using no_panic [of src] by (cases "dec src") auto
  consider "r = Ok None" | e where "r = Err e" | m where "r = Ok (Some m)"
    by (metis Result.exhaust not_Some_eq)
  then show P
  proof cases
    case 1
    with d have "dec src = Some (Ok None, src)" using wait_keeps by auto
    then show P using drain_wait assms(1) by blast
  next
    case 2
    with d show P using drain_error assms(2) by blast
  next
    case 3
    with d show P using drain_item item_shorter assms(3) by blast
  qed
qed

text \<open>A reader never crashes: it ends waiting for bytes or with an error of the decoder.\<close>

lemma drain_no_crash: "snd (drain dec src) \<noteq> Crashed"
proof (induction "length src" arbitrary: src rule: less_induct)
  case less
  show ?case by (rule drain_cases [of src]) (auto simp: less)
qed

text \<open>More bytes never change the messages already found: they continue where it waited.\<close>

lemma drain_append:
  "drain dec src = (ms, Waiting buf)
   \<Longrightarrow> drain dec (src @ extra) = (ms @ fst (drain dec (buf @ extra)), snd (drain dec (buf @ extra)))"
proof (induction "length src" arbitrary: src ms rule: less_induct)
  case less
  show ?case
  proof (rule drain_cases [of src])
    fix m src'
    assume d: "dec src = Some (Ok (Some m), src')" and l: "length src' < length src"
      and dr: "drain dec src = (m # fst (drain dec src'), snd (drain dec src'))"
    from dr less.prems obtain ms' where ms: "ms = m # ms'" "drain dec src' = (ms', Waiting buf)"
      by (cases "drain dec src'") auto
    from item_stable [OF d] have "drain dec (src @ extra)
        = (m # fst (drain dec (src' @ extra)), snd (drain dec (src' @ extra)))"
      by (rule drain_item)
    with less.hyps [OF l ms(2)] ms(1) show ?thesis by simp
  qed (use less.prems in auto)
qed

lemma drain_append_failed:
  "drain dec src = (ms, Failed e) \<Longrightarrow> drain dec (src @ extra) = (ms, Failed e)"
proof (induction "length src" arbitrary: src ms rule: less_induct)
  case less
  show ?case
  proof (rule drain_cases [of src])
    fix e' src'
    assume "dec src = Some (Err e', src')" and "drain dec src = ([], Failed e')"
    with less.prems obtain src'' where "ms = []" "dec (src @ extra) = Some (Err e, src'')"
      using error_stable [of src e src' extra] by auto
    then show ?thesis using drain_error by simp
  next
    fix m src'
    assume d: "dec src = Some (Ok (Some m), src')" and l: "length src' < length src"
      and dr: "drain dec src = (m # fst (drain dec src'), snd (drain dec src'))"
    from dr less.prems obtain ms' where ms: "ms = m # ms'" "drain dec src' = (ms', Failed e)"
      by (cases "drain dec src'") auto
    from drain_item [OF item_stable [OF d, of extra]] less.hyps [OF l ms(2)] ms(1)
    show ?thesis by simp
  qed (use less.prems in auto)
qed

text \<open>A reader that waits, waits on a buffer that holds no complete message.\<close>

lemma drain_waits: "drain dec src = (ms, Waiting buf) \<Longrightarrow> dec buf = Some (Ok None, buf)"
proof (induction "length src" arbitrary: src ms rule: less_induct)
  case less
  show ?case
  proof (rule drain_cases [of src])
    fix m src' assume l: "length src' < length src"
      and dr: "drain dec src = (m # fst (drain dec src'), snd (drain dec src'))"
    from dr less.prems have "drain dec src' = (fst (drain dec src'), Waiting buf)"
      by (cases "drain dec src'") auto
    with less.hyps l show ?thesis by blast
  qed (use less.prems in auto)
qed

text \<open>The messages and the end do not depend on how the bytes are cut into chunks.\<close>

lemma receive_eq_drain:
  assumes "dec buf = Some (Ok None, buf)"
  shows "receive dec buf chunks = drain dec (buf @ concat chunks)"
  using assms
proof (induction chunks arbitrary: buf)
  case Nil
  then show ?case by (simp add: drain_wait)
next
  case (Cons c cs)
  obtain ms en where d: "drain dec (buf @ c) = (ms, en)" by force
  have whole: "buf @ concat (c # cs) = (buf @ c) @ concat cs" by simp
  show ?case
  proof (cases en)
    case (Waiting buf')
    with d have w: "drain dec (buf @ c) = (ms, Waiting buf')" by simp
    from drain_waits [OF w] have "dec buf' = Some (Ok None, buf')" .
    from Cons.IH [OF this] drain_append [OF w, of "concat cs"] w whole show ?thesis
      by (simp split: prod.split)
  next
    case (Failed e)
    with d drain_append_failed [of "buf @ c" ms e "concat cs"] whole show ?thesis by simp
  next
    case Crashed
    with d drain_no_crash [of "buf @ c"] show ?thesis by simp
  qed
qed

end

text \<open>A decoder that behaves so on every buffer meets the contract.\<close>

lemma framed_at_wait: "dec src = Some (Ok None, src) \<Longrightarrow> framed_at dec src"
  by (simp add: framed_at_def)

lemma framed_at_item:
  "src = pre @ r \<Longrightarrow> pre \<noteq> [] \<Longrightarrow> (\<And>x. dec (src @ x) = Some (Ok (Some m), r @ x)) \<Longrightarrow> framed_at dec src"
  unfolding framed_at_def by blast

lemma framed_at_error: "(\<And>x. dec (src @ x) = Some (Err e, src @ x)) \<Longrightarrow> framed_at dec src"
  unfolding framed_at_def by blast

lemma framed_at_cases [consumes 1, case_names Wait Item Error]:
  assumes "framed_at dec src"
  obtains "dec src = Some (Ok None, src)"
    | m pre r where "src = pre @ r" "pre \<noteq> []" "\<And>x. dec (src @ x) = Some (Ok (Some m), r @ x)"
        "dec src = Some (Ok (Some m), r)"
    | e where "\<And>x. dec (src @ x) = Some (Err e, src @ x)" "dec src = Some (Err e, src)"
proof -
  from assms consider "dec src = Some (Ok None, src)"
    | m pre r where "src = pre @ r" "pre \<noteq> []" "\<forall>x. dec (src @ x) = Some (Ok (Some m), r @ x)"
    | e where "\<forall>x. dec (src @ x) = Some (Err e, src @ x)"
    unfolding framed_at_def by blast
  then show thesis
  proof cases
    case 1 then show thesis by (rule that(1))
  next
    case 2
    from spec [OF 2(3), of "[]"] 2 show thesis by (intro that(2)) simp_all
  next
    case 3
    from spec [OF 3, of "[]"] 3 show thesis by (intro that(3)) simp_all
  qed
qed

lemma frame_decoderI:
  assumes framed: "\<And>src. framed_at dec src"
  shows "frame_decoder dec"
proof (unfold_locales, goal_cases)
  case (1 src)
  from framed [of src] show ?case by (cases rule: framed_at_cases) auto
next
  case (2 src m src')
  from framed [of src] show ?case by (cases rule: framed_at_cases) (use 2 in \<open>auto simp: suffix_def\<close>)
next
  case (3 src src')
  from framed [of src] show ?case by (cases rule: framed_at_cases) (use 3 in auto)
next
  case (4 src m src' extra)
  from framed [of src] show ?case by (cases rule: framed_at_cases) (use 4 in auto)
next
  case (5 src e src' extra)
  from framed [of src] show ?case by (cases rule: framed_at_cases) (use 5 in auto)
qed

locale stream_codec = frame_decoder dec for dec :: "BytesMut \<Rightarrow> 'm decoded" +
  fixes enc :: "'m \<Rightarrow> BytesMut"
    and sendable :: "'m \<Rightarrow> bool"
    and norm :: "'m \<Rightarrow> 'm"
  assumes dec_enc: "sendable m \<Longrightarrow> dec (enc m) = Some (Ok (Some (norm m)), [])"
begin

lemma dec_enc_append: "sendable m \<Longrightarrow> dec (enc m @ extra) = Some (Ok (Some (norm m)), extra)"
  using item_stable [OF dec_enc] by simp

text \<open>A message that has not arrived completely makes the reader wait and keep its bytes.\<close>

lemma dec_strict_prefix:
  assumes "sendable m" and "strict_prefix p (enc m)"
  shows "dec p = Some (Ok None, p)"
proof -
  from assms(2) obtain extra where extra: "enc m = p @ extra" "extra \<noteq> []"
    by (auto simp: strict_prefix_def prefix_def)
  from assms(1) have d: "dec (p @ extra) = Some (Ok (Some (norm m)), [])"
    using dec_enc [of m] extra(1) by simp
  show ?thesis
  proof (rule drain_cases [of p])
    fix e src' assume "dec p = Some (Err e, src')"
    with error_stable [of p e src' extra] d show ?thesis by auto
  next
    fix m' src' assume "dec p = Some (Ok (Some m'), src')"
    with item_stable [of p m' src' extra] d extra(2) show ?thesis by auto
  qed
qed

lemma drain_encoded:
  assumes "list_all sendable ms" and "dec p = Some (Ok None, p)"
  shows "drain dec (concat (map enc ms) @ p) = (map norm ms, Waiting p)"
  using assms(1)
proof (induction ms)
  case Nil
  with assms(2) show ?case by (simp add: drain_wait)
next
  case (Cons m ms)
  then have "dec (enc m @ concat (map enc ms) @ p) = Some (Ok (Some (norm m)), concat (map enc ms) @ p)"
    by (simp add: dec_enc_append)
  from drain_item [OF this] Cons show ?case by simp
qed

text \<open>
  Whatever chunks a transport delivers, a reader gets exactly the messages whose encodings it
  was sent, and keeps the bytes of an unfinished one.
\<close>

lemma receive_encoded:
  assumes "list_all sendable ms" and "dec p = Some (Ok None, p)" and "dec [] = Some (Ok None, [])"
    and "concat chunks = concat (map enc ms) @ p"
  shows "receive dec [] chunks = (map norm ms, Waiting p)"
  using receive_eq_drain [OF assms(3), of chunks] drain_encoded [OF assms(1,2)] assms(4) by simp

end

end
