(* ===== verification/Device_Msg.thy ===== *)
theory Device_Msg
  imports Framing
begin

text \<open>
  The protocol between the daemon and the ESP32 (\<open>common/src/msg.rs\<close>): the messages, their numeric
  kinds and sizes, the construction of a data message from a slice, and the codec.

  A message is a kind byte, a length byte and a payload. The array of a \<open>Data\<close> message is a list;
  that it has the 255 elements of its Rust type is \<open>DeviceMessage_wf\<close>. Only the first \<open>len\<close> bytes
  travel, so decoding gives the message with the rest of its array zeroed (\<open>normalise\<close>).
\<close>

section \<open>Messages\<close>

definition MAX_MESSAGE_LEN :: nat where
  "MAX_MESSAGE_LEN = 255"

datatype DeviceControlRequest = CtlReset

datatype DeviceControlResponse = CtlOk | CtlNotSupported

datatype DeviceMessage =
    Data u8 "u8 list"
  | Config u32 u8 u8 u8 bool \<comment> \<open>baudrate, data bits, stop bits, parity, hardware flow control\<close>
  | ControlReq DeviceControlRequest
  | ControlRes DeviceControlResponse

text \<open>The discriminants, as \<open>req as u8\<close> and \<open>res as u8\<close> give them.\<close>

fun DeviceControlRequest_as_u8 :: "DeviceControlRequest \<Rightarrow> u8" where
  "DeviceControlRequest_as_u8 CtlReset = 1"

fun DeviceControlResponse_as_u8 :: "DeviceControlResponse \<Rightarrow> u8" where
  "DeviceControlResponse_as_u8 CtlOk = 1"
| "DeviceControlResponse_as_u8 CtlNotSupported = 2"

definition DeviceControlRequest_try_from :: "u8 \<Rightarrow> (DeviceControlRequest, io_error) Result" where
  "DeviceControlRequest_try_from value =
     (if value = 1 then Ok CtlReset
      else Err (IoError InvalidData ''Unknown control request''))"

definition DeviceControlResponse_try_from :: "u8 \<Rightarrow> (DeviceControlResponse, io_error) Result" where
  "DeviceControlResponse_try_from value =
     (if value = 1 then Ok CtlOk
      else if value = 2 then Ok CtlNotSupported
      else Err (IoError InvalidData ''Unknown control response''))"

fun kind :: "DeviceMessage \<Rightarrow> u8" where
  "kind (Data _ _) = 1"
| "kind (Config _ _ _ _ _) = 2"
| "kind (ControlReq _) = 3"
| "kind (ControlRes _) = 4"

fun data_size :: "DeviceMessage \<Rightarrow> nat" where
  "data_size (Data len _) = unat len"
| "data_size (Config _ _ _ _ _) = 8"
| "data_size (ControlReq _) = 1"
| "data_size (ControlRes _) = 1"

definition DeviceMessage_from :: "u8 list \<Rightarrow> DeviceMessage exec" where
  "DeviceMessage_from buf =
     (let len = min (length buf) MAX_MESSAGE_LEN;
          arr = replicate MAX_MESSAGE_LEN 0
      in case slice_to buf len of
           None \<Rightarrow> panic
         | Some s \<Rightarrow>
             (case copy_prefix arr len s of
                None \<Rightarrow> panic
              | Some arr' \<Rightarrow> Some (Data (of_nat len) arr')))"

section \<open>The codec\<close>

definition DeviceCodec_encode ::
  "bytes_api \<Rightarrow> DeviceMessage \<Rightarrow> BytesMut \<Rightarrow> ((unit, io_error) Result \<times> BytesMut) exec" where
  "DeviceCodec_encode B item dst0 =
     (let dst1 = reserve B (2 + data_size item) dst0;
          dst2 = put_u8 B (kind item) dst1;
          dst = put_u8 B (of_nat (data_size item)) dst2
      in case item of
           Data sz data \<Rightarrow>
             (case slice_to data (unat sz) of
                None \<Rightarrow> panic
              | Some s \<Rightarrow> Some (Ok (), put_slice B s dst))
         | Config baudrate data_bits stop_bits parity hw_flow_ctl \<Rightarrow>
             Some (Ok (),
               put_u8 B (of_bool hw_flow_ctl)
                 (put_u8 B parity
                   (put_u8 B stop_bits
                     (put_u8 B data_bits
                       (put_u32 B baudrate dst)))))
         | ControlReq req \<Rightarrow> Some (Ok (), put_u8 B (DeviceControlRequest_as_u8 req) dst)
         | ControlRes res \<Rightarrow> Some (Ok (), put_u8 B (DeviceControlResponse_as_u8 res) dst))"

text \<open>
  \<open>decode\<close> reads through a cursor over \<open>src\<close>. An early \<open>return Ok(None)\<close> is \<open>wait\<close>; the end of
  the function, which advances \<open>src\<close> to the cursor's position, is \<open>finish\<close>.
\<close>

definition DeviceCodec_decode :: "bytes_api \<Rightarrow> BytesMut \<Rightarrow> DeviceMessage decoded" where
  "DeviceCodec_decode B src =
     (let wait = Some (Ok None, src);
          fail = (\<lambda>e. Some (Err e, src));
          finish = (\<lambda>item cursor.
            case advance B (position cursor) src of
              None \<Rightarrow> panic
            | Some src' \<Rightarrow> Some (Ok (Some item), src'))
      in case try_get_u8 B (Cursor_new src) of None \<Rightarrow> wait | Some (k, cursor) \<Rightarrow>
         case try_get_u8 B cursor of None \<Rightarrow> wait | Some (data_len, cursor) \<Rightarrow>
         if remaining B cursor < unat data_len then wait
         else if k = 1 then
           (let data = replicate MAX_MESSAGE_LEN (0 :: u8)
            in case slice_to data (unat data_len) of
                 None \<Rightarrow> panic
               | Some window \<Rightarrow>
                   (case copy_to_slice B (length window) cursor of
                      None \<Rightarrow> panic
                    | Some (bs, cursor) \<Rightarrow>
                        finish (Data data_len (bs @ drop (length window) data)) cursor))
         else if k = 2 then
           (case try_get_u32 B cursor of None \<Rightarrow> wait | Some (baudrate, cursor) \<Rightarrow>
            case try_get_u8 B cursor of None \<Rightarrow> wait | Some (data_bits, cursor) \<Rightarrow>
            case try_get_u8 B cursor of None \<Rightarrow> wait | Some (stop_bits, cursor) \<Rightarrow>
            case try_get_u8 B cursor of None \<Rightarrow> wait | Some (parity, cursor) \<Rightarrow>
            case try_get_u8 B cursor of None \<Rightarrow> wait | Some (hw_flow_ctl, cursor) \<Rightarrow>
            if hw_flow_ctl > 1 then fail (IoError InvalidData ''Hardware flow control is not a bool'')
            else finish (Config baudrate data_bits stop_bits parity (hw_flow_ctl \<noteq> 0)) cursor)
         else if k = 3 then
           (case try_get_u8 B cursor of None \<Rightarrow> wait | Some (b, cursor) \<Rightarrow>
            case DeviceControlRequest_try_from b of
              Err e \<Rightarrow> fail e
            | Ok req \<Rightarrow> finish (ControlReq req) cursor)
         else if k = 4 then
           (case try_get_u8 B cursor of None \<Rightarrow> wait | Some (b, cursor) \<Rightarrow>
            case DeviceControlResponse_try_from b of
              Err e \<Rightarrow> fail e
            | Ok res \<Rightarrow> finish (ControlRes res) cursor)
         else fail (IoError InvalidData ''Unknown message kind''))"

section \<open>Well-formed messages and their wire image\<close>

fun DeviceMessage_wf :: "DeviceMessage \<Rightarrow> bool" where
  "DeviceMessage_wf (Data _ arr) = (length arr = MAX_MESSAGE_LEN)"
| "DeviceMessage_wf _ = True"

fun normalise :: "DeviceMessage \<Rightarrow> DeviceMessage" where
  "normalise (Data n arr) = Data n (take (unat n) arr @ replicate (MAX_MESSAGE_LEN - unat n) 0)"
| "normalise m = m"

text \<open>The bytes of the payload, and of the whole message.\<close>

fun payload :: "DeviceMessage \<Rightarrow> u8 list" where
  "payload (Data n arr) = take (unat n) arr"
| "payload (Config baud db sb par hw) = be32 baud @ [db, sb, par, of_bool hw]"
| "payload (ControlReq r) = [DeviceControlRequest_as_u8 r]"
| "payload (ControlRes r) = [DeviceControlResponse_as_u8 r]"

definition device_wire :: "DeviceMessage \<Rightarrow> u8 list" where
  "device_wire m = [kind m, of_nat (data_size m)] @ payload m"

section \<open>Lemmas\<close>

lemma length_payload: "DeviceMessage_wf m \<Longrightarrow> length (payload m) = data_size m"
  by (cases m) (simp_all add: MAX_MESSAGE_LEN_def)

lemma data_size_le: "data_size m \<le> 255"
  by (cases m) simp_all

lemma normalise_wf: "DeviceMessage_wf m \<Longrightarrow> DeviceMessage_wf (normalise m)"
  by (cases m) (simp_all add: MAX_MESSAGE_LEN_def)

lemma normalise_idem: "DeviceMessage_wf m \<Longrightarrow> normalise (normalise m) = normalise m"
  by (cases m) (simp_all add: MAX_MESSAGE_LEN_def)

lemma device_wire_normalise: "DeviceMessage_wf m \<Longrightarrow> device_wire (normalise m) = device_wire m"
  by (cases m) (simp_all add: device_wire_def MAX_MESSAGE_LEN_def)

lemma DeviceMessage_from_eq:
  "DeviceMessage_from buf =
     Some (Data (of_nat (min (length buf) 255)) (take 255 buf @ replicate (255 - length buf) 0))"
  by (simp add: DeviceMessage_from_def Let_def MAX_MESSAGE_LEN_def min_def slice_to_def copy_prefix_def)

context bytes_crate
begin

lemma DeviceCodec_encode_wire:
  assumes "DeviceMessage_wf m"
  shows "DeviceCodec_encode B m dst = Some (Ok (), dst @ device_wire m)"
  using assms
  by (cases m) (simp_all add: DeviceCodec_encode_def device_wire_def Let_def MAX_MESSAGE_LEN_def)

lemma decode_short: "length src < 2 \<Longrightarrow> DeviceCodec_decode B src = Some (Ok None, src)"
  by (cases src rule: list.exhaust)
     (auto simp: DeviceCodec_decode_def reads Let_def less_Suc_eq_le split: list.splits)

lemma decode_body_short:
  "length body < unat l \<Longrightarrow> DeviceCodec_decode B (k # l # body) = Some (Ok None, k # l # body)"
  by (simp add: DeviceCodec_decode_def reads Let_def)

lemma decode_data:
  "unat l \<le> length body \<Longrightarrow> DeviceCodec_decode B (1 # l # body) =
     Some (Ok (Some (Data l (take (unat l) body @ replicate (255 - unat l) 0))), drop (unat l) body)"
  by (simp add: DeviceCodec_decode_def reads Let_def MAX_MESSAGE_LEN_def)

lemma decode_config_short:
  "length body < 8 \<Longrightarrow> DeviceCodec_decode B (2 # l # body) = Some (Ok None, 2 # l # body)"
  by (auto simp: DeviceCodec_decode_def reads Let_def drop_Cons' split: list.split)

lemma decode_config:
  "unat l \<le> 8 + length r \<Longrightarrow>
   DeviceCodec_decode B (2 # l # [a, b, c, d, db, sb, par, hw] @ r) =
     (if hw > 1 then Some (Err (IoError InvalidData ''Hardware flow control is not a bool''),
                           2 # l # [a, b, c, d, db, sb, par, hw] @ r)
      else Some (Ok (Some (Config (of_be32 a b c d) db sb par (hw \<noteq> 0))), r))"
  by (simp add: DeviceCodec_decode_def reads Let_def)

lemma decode_request:
  "unat l \<le> Suc (length r) \<Longrightarrow> DeviceCodec_decode B (3 # l # b # r) =
     (case DeviceControlRequest_try_from b of
        Err e \<Rightarrow> Some (Err e, 3 # l # b # r)
      | Ok req \<Rightarrow> Some (Ok (Some (ControlReq req)), r))"
  by (simp add: DeviceCodec_decode_def reads Let_def split: Result.split)

lemma decode_response:
  "unat l \<le> Suc (length r) \<Longrightarrow> DeviceCodec_decode B (4 # l # b # r) =
     (case DeviceControlResponse_try_from b of
        Err e \<Rightarrow> Some (Err e, 4 # l # b # r)
      | Ok res \<Rightarrow> Some (Ok (Some (ControlRes res)), r))"
  by (simp add: DeviceCodec_decode_def reads Let_def split: Result.split)

lemma decode_control_short:
  "k = 3 \<or> k = 4 \<Longrightarrow> DeviceCodec_decode B [k, l] = Some (Ok None, [k, l])"
  by (auto simp: DeviceCodec_decode_def reads Let_def)

lemma decode_unknown:
  "k \<notin> {1, 2, 3, 4} \<Longrightarrow> unat l \<le> length body \<Longrightarrow>
   DeviceCodec_decode B (k # l # body) = Some (Err (IoError InvalidData ''Unknown message kind''), k # l # body)"
  by (simp add: DeviceCodec_decode_def reads Let_def)

lemma framed_config:
  assumes "unat l \<le> length body"
  shows "framed_at (DeviceCodec_decode B) (2 # l # body)"
proof (cases "length body < 8")
  case True
  then show ?thesis by (intro framed_at_wait decode_config_short)
next
  case False
  then obtain a b c d db sb par hw r where body: "body = [a, b, c, d, db, sb, par, hw] @ r"
    using length_ge_8E [of body] by (metis not_less)
  with assms have "unat l \<le> 8 + length (r @ x)" for x by simp
  note dec = decode_config [OF this, where a = a and b = b and c = c and d = d and db = db
      and sb = sb and par = par and hw = hw]
  show ?thesis
  proof (cases "hw > 1")
    case True
    with dec body show ?thesis by (intro framed_at_error) simp
  next
    case False
    with dec body show ?thesis
      by (intro framed_at_item [of _ "[2, l, a, b, c, d, db, sb, par, hw]" r]) simp_all
  qed
qed

lemma framed_request:
  assumes "unat l \<le> length body"
  shows "framed_at (DeviceCodec_decode B) (3 # l # body)"
proof (cases body)
  case Nil
  then show ?thesis by (simp add: framed_at_wait decode_control_short)
next
  case (Cons b r)
  with assms have "unat l \<le> Suc (length (r @ x))" for x by simp
  note dec = decode_request [OF this, where b = b]
  show ?thesis
  proof (cases "DeviceControlRequest_try_from b")
    case (Ok req)
    with dec Cons show ?thesis by (intro framed_at_item [of _ "[3, l, b]" r]) simp_all
  next
    case (Err e)
    with dec Cons show ?thesis by (intro framed_at_error) simp
  qed
qed

lemma framed_response:
  assumes "unat l \<le> length body"
  shows "framed_at (DeviceCodec_decode B) (4 # l # body)"
proof (cases body)
  case Nil
  then show ?thesis by (simp add: framed_at_wait decode_control_short)
next
  case (Cons b r)
  with assms have "unat l \<le> Suc (length (r @ x))" for x by simp
  note dec = decode_response [OF this, where b = b]
  show ?thesis
  proof (cases "DeviceControlResponse_try_from b")
    case (Ok res)
    with dec Cons show ?thesis by (intro framed_at_item [of _ "[4, l, b]" r]) simp_all
  next
    case (Err e)
    with dec Cons show ?thesis by (intro framed_at_error) simp
  qed
qed

lemma framed_data:
  assumes "unat l \<le> length body"
  shows "framed_at (DeviceCodec_decode B) (1 # l # body)"
  using assms
  by (intro framed_at_item [of _ "1 # l # take (unat l) body" "drop (unat l) body"])
     (simp_all add: decode_data)

lemma device_framed: "framed_at (DeviceCodec_decode B) src"
proof (cases "length src < 2")
  case True
  then show ?thesis by (intro framed_at_wait decode_short)
next
  case False
  then obtain k l body where src: "src = k # l # body"
    by (auto simp: numeral_eq_Suc not_less Suc_le_length_iff)
  show ?thesis
  proof (cases "length body < unat l")
    case True
    with src show ?thesis by (simp add: framed_at_wait decode_body_short)
  next
    case False
    then have l: "unat l \<le> length body" by simp
    consider "k = 1" | "k = 2" | "k = 3" | "k = 4" | "k \<notin> {1, 2, 3, 4}" by blast
    then show ?thesis
    proof cases
      case 5
      with l src show ?thesis by (intro framed_at_error) (simp add: decode_unknown)
    qed (use l src framed_data framed_config framed_request framed_response in simp_all)
  qed
qed

lemma decode_wire:
  assumes "DeviceMessage_wf m"
  shows "DeviceCodec_decode B (device_wire m) = Some (Ok (Some (normalise m)), [])"
proof (cases m)
  case (Config baud db sb par hw)
  then have "device_wire m = [2, 8, ucast (drop_bit 24 baud), ucast (drop_bit 16 baud),
      ucast (drop_bit 8 baud), ucast baud, db, sb, par, of_bool hw]"
    by (simp add: device_wire_def be32_def)
  with Config decode_config [where l = 8 and r = "[]" and a = "ucast (drop_bit 24 baud)"
      and b = "ucast (drop_bit 16 baud)" and c = "ucast (drop_bit 8 baud)" and d = "ucast baud"
      and db = db and sb = sb and par = par and hw = "of_bool hw"]
  show ?thesis by (cases hw) simp_all
next
  case (Data n arr)
  with assms show ?thesis
    by (simp add: device_wire_def decode_data MAX_MESSAGE_LEN_def)
next
  case (ControlReq req)
  then show ?thesis
    by (cases req) (simp add: device_wire_def decode_request DeviceControlRequest_try_from_def)
next
  case (ControlRes res)
  then show ?thesis
    by (cases res) (simp_all add: device_wire_def decode_response DeviceControlResponse_try_from_def)
qed

end

text \<open>The device codec is a stream codec: its readers are independent of chunk boundaries.\<close>

sublocale bytes_crate \<subseteq> device: stream_codec "DeviceCodec_decode B" device_wire DeviceMessage_wf normalise
proof (intro stream_codec.intro frame_decoderI device_framed stream_codec_axioms.intro)
  fix m assume "DeviceMessage_wf m"
  then show "DeviceCodec_decode B (device_wire m) = Some (Ok (Some (normalise m)), [])"
    by (rule decode_wire)
qed

section \<open>Which frames are accepted\<close>

context bytes_crate
begin

lemmas device_dec_enc = device.dec_enc_append
lemmas device_dec_prefix = device.dec_strict_prefix
lemmas device_receive = device.receive_encoded

text \<open>
  The frame that a decoded message came from has the message's own kind, and the message's own
  payload behind the two header bytes; only the length byte may differ from the one \<open>encode\<close>
  writes.
\<close>

lemma decoded_frame:
  assumes "DeviceCodec_decode B src = Some (Ok (Some m), r)"
  obtains l where "src = kind m # l # payload m @ r" and "DeviceMessage_wf m" and "normalise m = m"
    and "\<And>n arr. m = Data n arr \<Longrightarrow> l = n"
proof -
  have "\<not> length src < 2" using assms decode_short [of src] by auto
  then obtain k l body where src: "src = k # l # body"
    by (auto simp: numeral_eq_Suc not_less Suc_le_length_iff)
  with assms have len: "unat l \<le> length body"
    using decode_body_short [of body l k] by (auto simp: not_less [symmetric])
  consider "k = 1" | "k = 2" | "k = 3" | "k = 4" | "k \<notin> {1, 2, 3, 4}" by blast
  then show thesis
  proof cases
    case 1
    with assms len src decode_data [OF len]
    have "m = Data l (take (unat l) body @ replicate (255 - unat l) 0)" "r = drop (unat l) body"
      by auto
    with 1 src len show thesis by (intro that) (simp_all add: MAX_MESSAGE_LEN_def)
  next
    case 2
    with assms src have "\<not> length body < 8" using decode_config_short [of body l] by auto
    then obtain a b c d db sb par hw tl' where body: "body = [a, b, c, d, db, sb, par, hw] @ tl'"
      using length_ge_8E [of body] by (metis not_less)
    with len have "unat l \<le> 8 + length tl'" by simp
    from decode_config [OF this, of a b c d db sb par hw] assms src body 2
    have m: "m = Config (of_be32 a b c d) db sb par (hw \<noteq> 0)" "r = tl'" "\<not> 1 < hw"
      by (auto split: if_splits)
    then have "of_bool (hw \<noteq> 0) = hw"
      by (auto simp: u8_not_greater_1)
    with m src body 2 show thesis by (intro that [of l]) simp_all
  next
    case 3
    with assms src obtain b tl' where body: "body = b # tl'"
      using decode_control_short [of k l] by (cases body) auto
    with len have "unat l \<le> Suc (length tl')" by simp
    from decode_request [OF this, of b] assms src body 3 show thesis
      by (intro that [of l])
         (auto simp: DeviceControlRequest_try_from_def split: Result.splits if_splits)
  next
    case 4
    with assms src obtain b tl' where body: "body = b # tl'"
      using decode_control_short [of k l] by (cases body) auto
    with len have "unat l \<le> Suc (length tl')" by simp
    from decode_response [OF this, of b] assms src body 4 show thesis
      by (intro that [of l])
         (auto simp: DeviceControlResponse_try_from_def split: Result.splits if_splits)
  next
    case 5
    with decode_unknown [OF 5 len] assms src show thesis by simp
  qed
qed

end

text \<open>A reader of the whole stream gets all messages.\<close>

lemma device_receive_whole:
  assumes "bytes_crate B" and "list_all DeviceMessage_wf ms" and "concat chunks = concat (map device_wire ms)"
  shows "receive (DeviceCodec_decode B) [] chunks = (map normalise ms, Waiting [])"
  by (intro bytes_crate.device_receive [OF assms(1,2)] bytes_crate.decode_short [OF assms(1)])
     (simp_all add: assms(3))

text \<open>A reader of the beginning of the stream gets the first messages.\<close>

lemma device_receive_prefix:
  assumes "bytes_crate B" and "list_all DeviceMessage_wf ms" and "prefix (concat chunks) (concat (map device_wire ms))"
  shows "\<exists>k q. receive (DeviceCodec_decode B) [] chunks = (map normalise (take k ms), Waiting q)"
proof -
  from prefix_concat [OF assms(3)] obtain k q where "concat chunks = concat (take k (map device_wire ms)) @ q"
    "q = [] \<or> k < length (map device_wire ms) \<and> strict_prefix q (map device_wire ms ! k)" by blast
  then have k: "concat chunks = concat (map device_wire (take k ms)) @ q"
    "q = [] \<or> k < length ms \<and> strict_prefix q (device_wire (ms ! k))"
    by (auto simp: take_map)
  have wf: "list_all DeviceMessage_wf (take k ms)" using assms(2) by (metis append_take_drop_id list_all_append)
  have nil: "DeviceCodec_decode B [] = Some (Ok None, [])" by (rule bytes_crate.decode_short [OF assms(1)]) simp
  have "DeviceCodec_decode B q = Some (Ok None, q)"
    using k(2)
  proof
    assume "k < length ms \<and> strict_prefix q (device_wire (ms ! k))"
    moreover from this assms(2) have "DeviceMessage_wf (ms ! k)" by (simp add: list_all_length)
    ultimately show ?thesis using bytes_crate.device_dec_prefix [OF assms(1)] by blast
  qed (use nil in simp)
  from bytes_crate.device_receive [OF assms(1) wf this nil k(1)] show ?thesis by blast
qed

section \<open>Properties\<close>

text \<open>C19. Every well-formed device message that \<open>encode\<close> appends to a buffer is read back by
  \<open>decode\<close> as the same message (with the unused part of a data array zeroed), whatever bytes
  follow it, and exactly those following bytes stay in the buffer.\<close>

theorem device_roundtrip:
  assumes "bytes_crate B" and "DeviceMessage_wf m"
  shows "\<exists>w. DeviceCodec_encode B m dst = Some (Ok (), dst @ w) \<and> length w = 2 + data_size m \<and>
     DeviceCodec_decode B (w @ extra) = Some (Ok (Some (normalise m)), extra)"
  using bytes_crate.DeviceCodec_encode_wire [OF assms] bytes_crate.device_dec_enc [OF assms]
    length_payload [OF assms(2)]
  by (auto simp: device_wire_def)

theorem device_roundtrip_witness:
  "\<exists>w. DeviceCodec_encode bytes_ref (Config 115200 8 1 0 True) [9] = Some (Ok (), [9] @ w) \<and>
     length w = 10 \<and>
     DeviceCodec_decode bytes_ref (w @ [7]) = Some (Ok (Some (Config 115200 8 1 0 True)), [7])"
  using device_roundtrip [OF ref.bytes_crate_axioms, of "Config 115200 8 1 0 True" "[9]" "[7]"]
  by simp

text \<open>C20. A stream of well-formed device messages, followed by an unfinished one, cut into chunks in
  any way whatsoever, gives the receiver exactly those messages in order; it then waits with the
  bytes of the unfinished message.\<close>

theorem device_stream_chunks:
  assumes "bytes_crate B" and "list_all DeviceMessage_wf ms"
    and "DeviceMessage_wf m" and "strict_prefix p (device_wire m)"
    and "concat chunks = concat (map device_wire ms) @ p"
  shows "receive (DeviceCodec_decode B) [] chunks = (map normalise ms, Waiting p)"
  by (intro bytes_crate.device_receive [OF assms(1)] assms(2,5)
      bytes_crate.device_dec_prefix [OF assms(1,3,4)] bytes_crate.decode_short [OF assms(1)]) simp

theorem device_stream_chunks_witness:
  "receive (DeviceCodec_decode bytes_ref) [] [[3], [1, 1, 4, 1], [2, 1], [2]]
     = ([ControlReq CtlReset, ControlRes CtlNotSupported], Waiting [1, 2])"
  using device_stream_chunks [OF ref.bytes_crate_axioms,
      of "[ControlReq CtlReset, ControlRes CtlNotSupported]" "Data 2 (replicate 255 0)" "[1, 2]"
         "[[3], [1, 1, 4, 1], [2, 1], [2]]"]
  by (simp add: device_wire_def MAX_MESSAGE_LEN_def strict_prefix_def)

text \<open>C22. \<open>decode\<close> is total on arbitrary input: it never panics, it leaves the buffer untouched
  unless it returns a message, and then it removes at least a two-byte header.\<close>

theorem device_decode_total:
  assumes "bytes_crate B"
  shows "DeviceCodec_decode B src = Some (Ok None, src)
     \<or> (\<exists>e. DeviceCodec_decode B src = Some (Err e, src))
     \<or> (\<exists>m r. DeviceCodec_decode B src = Some (Ok (Some m), r) \<and> suffix r src \<and> length r + 2 \<le> length src)"
  using bytes_crate.device_framed [OF assms, of src]
proof (cases rule: framed_at_cases)
  case (Item m pre r)
  from Item(4) obtain l where "src = kind m # l # payload m @ r"
    by (rule bytes_crate.decoded_frame [OF assms])
  with Item show ?thesis by (auto simp: suffix_def)
qed auto

theorem device_decode_total_witness:
  "DeviceCodec_decode bytes_ref [9, 0] \<noteq> panic"
  using device_decode_total [OF ref.bytes_crate_axioms, of "[9, 0]"] by auto

text \<open>The frame of an accepted message is, apart from the length byte, exactly what \<open>encode\<close>
  writes for that message; for a data message the length byte agrees as well.\<close>

lemma device_accepted_frame:
  assumes "bytes_crate B" and "DeviceCodec_decode B src = Some (Ok (Some m), r)"
  shows "\<exists>l. src = (device_wire m)[1 := l] @ r \<and> DeviceMessage_wf m \<and> normalise m = m
     \<and> (\<forall>n arr. m = Data n arr \<longrightarrow> src = device_wire m @ r)"
proof -
  from assms(2) obtain l where l: "src = kind m # l # payload m @ r" "DeviceMessage_wf m" "normalise m = m"
    "\<And>n arr. m = Data n arr \<Longrightarrow> l = n"
    by (rule bytes_crate.decoded_frame [OF assms(1)]) blast
  then show ?thesis by (intro exI [of _ l]) (auto simp: device_wire_def)
qed

text \<open>C40. The length byte of a configuration message is not checked against the size of the fields:
  any announced length that the buffer covers is accepted and ten bytes are removed, so a frame
  that announces another length leaves the reader inside the frame or behind its end.\<close>

theorem device_config_length_ignored:
  assumes "bytes_crate B" and "hw \<le> 1" and "unat l \<le> 8 + length r"
  shows "DeviceCodec_decode B (2 # l # be32 baud @ [db, sb, par, hw] @ r)
     = Some (Ok (Some (Config baud db sb par (hw \<noteq> 0))), r)"
  using bytes_crate.decode_config [OF assms(1,3)] assms(2) by (simp add: be32_def)

theorem device_config_length_ignored_witness:
  "DeviceCodec_decode bytes_ref (2 # 0 # be32 9600 @ [8, 1, 0, 1] @ [1, 0])
     = Some (Ok (Some (Config 9600 8 1 0 True)), [1, 0])"
  using device_config_length_ignored [OF ref.bytes_crate_axioms, of 1 0 "[1, 0]" 9600 8 1 0] by simp

text \<open>A data message built from a slice never panics, carries the first 255 bytes of the slice and
  nothing else, and survives the wire unchanged.\<close>

lemma device_from_slice:
  assumes "bytes_crate B"
  shows "\<exists>m. DeviceMessage_from buf = Some m \<and> DeviceMessage_wf m \<and> payload m = take 255 buf \<and>
     DeviceCodec_decode B (device_wire m @ extra) = Some (Ok (Some m), extra)"
proof -
  let ?m = "Data (of_nat (min (length buf) 255)) (take 255 buf @ replicate (255 - length buf) 0)"
  have wf: "DeviceMessage_wf ?m" by (simp add: MAX_MESSAGE_LEN_def)
  have "normalise ?m = ?m" by (simp add: MAX_MESSAGE_LEN_def min_def)
  with bytes_crate.device_dec_enc [OF assms wf, of extra] wf show ?thesis
    by (simp add: DeviceMessage_from_eq min_def)
qed

end
