(* ===== verification/Tcp_Bridge.thy ===== *)
theory Tcp_Bridge
  imports Device_Msg
begin

text \<open>
  The TCP side of a connection (\<open>daemon/src/tcp_bridge.rs\<close>). A bridge holds a framed stream while it is
  connected. The framed stream and the socket come from \<open>tokio\<close> and \<open>tokio_util\<close>: the stream is an opaque
  value of type \<open>'f\<close>, and what an \<open>await\<close> on it returns, with the stream afterwards, is an argument of
  the operation that awaits it. \<open>tcp_io\<close> records what was handed to the stream and with which result.
\<close>

datatype 'a TcpBridgeStatus = BridgeDisconnected io_error | BridgeOk 'a

record 'f TcpBridge =
  tb_addr :: u32
  tb_port :: u16
  tb_framed :: "'f option"

datatype tcp_io = TcpSent DeviceMessage | TcpSendFailed DeviceMessage

definition TcpBridge_new :: "u32 \<Rightarrow> u16 \<Rightarrow> 'f TcpBridge" where
  "TcpBridge_new addr port = \<lparr>tb_addr = addr, tb_port = port, tb_framed = None\<rparr>"

definition not_connected :: io_error where
  "not_connected = IoError NotConnected ''not connected''"

text \<open>\<open>out\<close> is the outcome of \<open>framed.send(msg).await\<close>.\<close>

definition TcpBridge_send ::
  "'f TcpBridge \<Rightarrow> DeviceMessage \<Rightarrow> (unit, io_error) Result \<times> 'f
     \<Rightarrow> unit TcpBridgeStatus \<times> 'f TcpBridge \<times> tcp_io list" where
  "TcpBridge_send self msg out =
     (case tb_framed self of
        None \<Rightarrow> (BridgeDisconnected not_connected, self, [])
      | Some _ \<Rightarrow>
          (case out of
             (Ok _, f) \<Rightarrow> (BridgeOk (), self\<lparr>tb_framed := Some f\<rparr>, [TcpSent msg])
           | (Err e, f) \<Rightarrow> (BridgeDisconnected e, self\<lparr>tb_framed := None\<rparr>, [TcpSendFailed msg])))"

text \<open>\<open>out\<close> is the outcome of \<open>framed.next().await\<close>.\<close>

definition TcpBridge_next ::
  "'f TcpBridge \<Rightarrow> (DeviceMessage, io_error) Result option \<times> 'f
     \<Rightarrow> DeviceMessage TcpBridgeStatus \<times> 'f TcpBridge" where
  "TcpBridge_next self out =
     (case tb_framed self of
        None \<Rightarrow> (BridgeDisconnected not_connected, self)
      | Some _ \<Rightarrow>
          (case out of
             (Some (Ok msg), f) \<Rightarrow> (BridgeOk msg, self\<lparr>tb_framed := Some f\<rparr>)
           | (Some (Err e), f) \<Rightarrow> (BridgeDisconnected e, self\<lparr>tb_framed := None\<rparr>)
           | (None, f) \<Rightarrow>
               (BridgeDisconnected (IoError ConnectionAborted ''client closed connection''),
                self\<lparr>tb_framed := None\<rparr>)))"

text \<open>
  The outcomes of \<open>TcpStream::connect\<close> and of \<open>set_nodelay\<close> on the socket, and the stream that
  \<open>Framed::new\<close> makes of it.
\<close>

record 'f connect_env =
  ce_connect :: "(unit, io_error) Result"
  ce_nodelay :: "(unit, io_error) Result"
  ce_framed :: 'f

definition TcpBridge_try_connect ::
  "'f TcpBridge \<Rightarrow> 'f connect_env \<Rightarrow> unit TcpBridgeStatus \<times> 'f TcpBridge" where
  "TcpBridge_try_connect self env =
     (if tb_framed self \<noteq> None then (BridgeOk (), self)
      else case ce_connect env of
             Ok _ \<Rightarrow>
               (case ce_nodelay env of
                  Err e \<Rightarrow> (BridgeDisconnected e, self)
                | Ok _ \<Rightarrow> (BridgeOk (), self\<lparr>tb_framed := Some (ce_framed env)\<rparr>))
           | Err e \<Rightarrow> (BridgeDisconnected e, self))"

section \<open>Lemmas\<close>

text \<open>A disconnected status leaves no stream behind; a good one leaves a stream.\<close>

lemma TcpBridge_send_cases [consumes 1, case_names Sent Lost]:
  assumes "TcpBridge_send self msg out = (st, self', io)"
  obtains f where "st = BridgeOk ()" "tb_framed self \<noteq> None" "self' = self\<lparr>tb_framed := Some f\<rparr>" "io = [TcpSent msg]"
    | e where "st = BridgeDisconnected e" "self' = self\<lparr>tb_framed := None\<rparr>"
        "io = (if tb_framed self = None then [] else [TcpSendFailed msg])"
  using assms
  by (auto simp: TcpBridge_send_def split: option.splits prod.splits Result.splits)

lemma TcpBridge_next_cases [consumes 1, case_names Got Lost]:
  assumes "TcpBridge_next self out = (st, self')"
  obtains m f where "st = BridgeOk m" "tb_framed self \<noteq> None" "fst out = Some (Ok m)"
      "self' = self\<lparr>tb_framed := Some f\<rparr>"
    | e where "st = BridgeDisconnected e" "self' = self\<lparr>tb_framed := None\<rparr>"
        "tb_framed self = None \<or> (\<forall>m. fst out \<noteq> Some (Ok m))"
  using assms
  by (auto simp: TcpBridge_next_def split: option.splits prod.splits Result.splits)

lemma TcpBridge_try_connect_cases [consumes 1, case_names Connected Failed]:
  assumes "TcpBridge_try_connect self env = (st, self')"
  obtains f where "st = BridgeOk ()" "self' = self\<lparr>tb_framed := Some f\<rparr>"
    | e where "st = BridgeDisconnected e" "self' = self" "tb_framed self = None"
  using assms
  by (cases self) (auto simp: TcpBridge_try_connect_def split: if_splits Result.splits)

end
