(* ===== verification/Async_Pty.thy ===== *)
theory Async_Pty
  imports Rust_Std
begin

text \<open>
  The master side of a pseudo-terminal in packet mode (\<open>daemon/src/async_pty.rs\<close>, the Linux
  configuration): detection of changes of the line settings, and the read and write loops.

  What the operating system answers is an input: a run of the read loop is given the outcomes of
  the system calls of each of its iterations (\<open>pty_iter\<close>), a run of the write loop the readiness and
  the outcome of each attempt. When the inputs end before the loop does, the task is still
  suspended in an \<open>await\<close>, and the result is \<^term>\<open>None\<close>. The system calls a function makes with an
  effect are listed in its result. The values of the termios constants, of \<open>EAGAIN\<close> and of
  \<open>O_NONBLOCK\<close>, and the functions \<open>cfgetispeed\<close> and \<open>OFlag::from_bits_truncate\<close> come from \<open>nix\<close> and are
  the parameter \<open>termios_api\<close>. Flag sets are words; \<open>&\<close>, \<open>|\<close> and \<open>contains\<close> work on their bits.
\<close>

section \<open>Line settings\<close>

datatype BaudRate =
    B50 | B75 | B110 | B134 | B150 | B200 | B300 | B600 | B1200 | B1800 | B2400 | B4800 | B9600
  | B19200 | B38400 | B57600 | B115200 | B230400 | B460800 | B500000 | B576000 | B921600
  | B1000000 | B1152000 | B1500000 | B2000000 | B2500000 | B3000000 | B3500000 | B4000000
  | B_other nat \<comment> \<open>the members of the enumeration that the source does not name\<close>

record Termios =
  control_flags :: u32
  local_flags :: u32
  tio_rest :: nat \<comment> \<open>the parts of the structure that the source does not touch\<close>

record termios_api =
  cfgetispeed :: "Termios \<Rightarrow> BaudRate"
  CSIZE :: u32
  CS5 :: u32
  CS6 :: u32
  CS7 :: u32
  CS8 :: u32
  PARENB :: u32
  PARODD :: u32
  CSTOPB :: u32
  CRTSCTS :: u32
  EXTPROC :: u32
  EAGAIN :: nat
  O_NONBLOCK :: u32
  from_bits_truncate :: "u32 \<Rightarrow> u32"

definition contains :: "u32 \<Rightarrow> u32 \<Rightarrow> bool" where
  "contains flags f \<longleftrightarrow> and flags f = f"

record TermiosChange =
  tc_baudrate :: u32
  tc_data_bits :: u8
  tc_parity :: u8
  tc_stop_bits :: u8
  tc_hw_flow_ctl :: bool

fun speed_to_u32 :: "BaudRate \<Rightarrow> u32" where
  "speed_to_u32 B50 = 50"
| "speed_to_u32 B75 = 75"
| "speed_to_u32 B110 = 110"
| "speed_to_u32 B134 = 134"
| "speed_to_u32 B150 = 150"
| "speed_to_u32 B200 = 200"
| "speed_to_u32 B300 = 300"
| "speed_to_u32 B600 = 600"
| "speed_to_u32 B1200 = 1200"
| "speed_to_u32 B1800 = 1800"
| "speed_to_u32 B2400 = 2400"
| "speed_to_u32 B4800 = 4800"
| "speed_to_u32 B9600 = 9600"
| "speed_to_u32 B19200 = 19200"
| "speed_to_u32 B38400 = 38400"
| "speed_to_u32 B57600 = 57600"
| "speed_to_u32 B115200 = 115200"
| "speed_to_u32 B230400 = 230400"
| "speed_to_u32 B460800 = 460800"
| "speed_to_u32 B500000 = 500000"
| "speed_to_u32 B576000 = 576000"
| "speed_to_u32 B921600 = 921600"
| "speed_to_u32 B1000000 = 1000000"
| "speed_to_u32 B1152000 = 1152000"
| "speed_to_u32 B1500000 = 1500000"
| "speed_to_u32 B2000000 = 2000000"
| "speed_to_u32 B2500000 = 2500000"
| "speed_to_u32 B3000000 = 3000000"
| "speed_to_u32 B3500000 = 3500000"
| "speed_to_u32 B4000000 = 4000000"
| "speed_to_u32 (B_other _) = 9600"

definition get_termios_change :: "termios_api \<Rightarrow> Termios \<Rightarrow> TermiosChange" where
  "get_termios_change A tio =
     (let flags = control_flags tio;
          baudrate = speed_to_u32 (cfgetispeed A tio);
          csize = and flags (CSIZE A);
          data_bits = (if csize = CS5 A then 5
                       else if csize = CS6 A then 6
                       else if csize = CS7 A then 7
                       else if csize = CS8 A then 8
                       else 0);
          parity = (if contains flags (PARENB A) \<and> contains flags (PARODD A) then 1
                    else if contains flags (PARENB A) \<and> \<not> contains flags (PARODD A) then 2
                    else 0);
          stop_bits = (if contains flags (CSTOPB A) then 2 else 1);
          hw_flow_ctl = contains flags (CRTSCTS A)
      in \<lparr>tc_baudrate = baudrate, tc_data_bits = data_bits, tc_parity = parity,
          tc_stop_bits = stop_bits, tc_hw_flow_ctl = hw_flow_ctl\<rparr>)"

definition check_termios_change :: "termios_api \<Rightarrow> Termios \<Rightarrow> Termios \<Rightarrow> bool" where
  "check_termios_change A old new =
     (let oldf = control_flags old; newf = control_flags new
      in if cfgetispeed A old \<noteq> cfgetispeed A new then True
         else if and oldf (CSIZE A) \<noteq> and newf (CSIZE A) then True
         else if and oldf (or (PARENB A) (PARODD A)) \<noteq> and newf (or (PARENB A) (PARODD A)) then True
         else if and oldf (CRTSCTS A) \<noteq> and newf (CRTSCTS A) then True
         else and oldf (CSTOPB A) \<noteq> and newf (CSTOPB A))"

section \<open>The pseudo-terminal\<close>

record AsyncPty =
  pty_fd :: nat \<comment> \<open>the descriptor inside \<open>AsyncFd<PtyMaster>\<close>\<close>
  current_tio :: Termios
  slave_fd :: nat

datatype PtyReadResult =
    PtyData nat
  | PtyTermiosChange TermiosChange
  | PtyControlMessage u8

definition TIOCPKT_IOCTL :: u8 where
  "TIOCPKT_IOCTL = 0x40"

text \<open>System calls that change something.\<close>

datatype pty_syscall =
    Fcntl_SETFL u32
  | Ioctl_TIOCPKT int
  | Open_slave rstring
  | Tcsetattr Termios

text \<open>
  \<open>set_extproc\<close>, given what its \<open>tcgetattr\<close> and its \<open>tcsetattr\<close> return.
\<close>

definition set_extproc ::
  "termios_api \<Rightarrow> (Termios, io_error) Result \<Rightarrow> (unit, io_error) Result
     \<Rightarrow> (unit, io_error) Result \<times> pty_syscall list" where
  "set_extproc A tcget tcset =
     (case tcget of
        Err e \<Rightarrow> (Err e, [])
      | Ok tio0 \<Rightarrow>
          (let tio = tio0\<lparr>local_flags := or (local_flags tio0) (EXTPROC A)\<rparr>
           in case tcset of
                Err e \<Rightarrow> (Err e, [Tcsetattr tio])
              | Ok _ \<Rightarrow> (Ok (), [Tcsetattr tio])))"

text \<open>What the system calls of \<open>AsyncPty::new\<close> return, in order.\<close>

record pty_new_env =
  ne_getfl :: "(u32, io_error) Result"
  ne_setfl :: "(unit, io_error) Result"
  ne_tiocpkt :: "(unit, io_error) Result"
  ne_ptsname :: "(rstring, io_error) Result"
  ne_open :: "(nat, io_error) Result"
  ne_ext_get :: "(Termios, io_error) Result"
  ne_ext_set :: "(unit, io_error) Result"
  ne_tcgetattr :: "(Termios, io_error) Result"
  ne_asyncfd :: "(unit, io_error) Result"

definition AsyncPty_new ::
  "termios_api \<Rightarrow> nat \<Rightarrow> pty_new_env \<Rightarrow> (AsyncPty, io_error) Result \<times> pty_syscall list" where
  "AsyncPty_new A pty env =
     (case ne_getfl env of Err e \<Rightarrow> (Err e, []) | Ok flags \<Rightarrow>
      let s1 = [Fcntl_SETFL (or (from_bits_truncate A flags) (O_NONBLOCK A))] in
      case ne_setfl env of Err e \<Rightarrow> (Err e, s1) | Ok _ \<Rightarrow>
      let s2 = s1 @ [Ioctl_TIOCPKT 1] in
      case ne_tiocpkt env of Err e \<Rightarrow> (Err e, s2) | Ok _ \<Rightarrow>
      case ne_ptsname env of Err e \<Rightarrow> (Err e, s2) | Ok slave_name \<Rightarrow>
      let s3 = s2 @ [Open_slave slave_name] in
      case ne_open env of Err e \<Rightarrow> (Err e, s3) | Ok fd \<Rightarrow>
      case set_extproc A (ne_ext_get env) (ne_ext_set env) of
        (Err e, s) \<Rightarrow> (Err e, s3 @ s)
      | (Ok _, s) \<Rightarrow>
      (case ne_tcgetattr env of Err e \<Rightarrow> (Err e, s3 @ s) | Ok tio \<Rightarrow>
       case ne_asyncfd env of Err e \<Rightarrow> (Err e, s3 @ s) | Ok _ \<Rightarrow>
       (Ok \<lparr>pty_fd = pty, current_tio = tio, slave_fd = fd\<rparr>, s3 @ s)))"

section \<open>The read loop\<close>

text \<open>
  \<open>readv\<close> returns the bytes it has put into the control byte and then into the buffer, or an
  error number.
\<close>

datatype readv_out = ReadvOk "u8 list" | ReadvErr nat

record pty_iter =
  it_readable :: "(unit, io_error) Result"
  it_readv :: readv_out
  it_tcget :: "(Termios, io_error) Result"
  it_ext_get :: "(Termios, io_error) Result"
  it_ext_set :: "(unit, io_error) Result"
  it_tcget2 :: "(Termios, io_error) Result"

text \<open>
  The branch for an IOCTL packet: read the settings, put \<open>EXTPROC\<close> back if the application cleared
  it, and report the settings if they differ. \<open>None\<close> in the first component: go on with the loop.
\<close>

definition handle_ioctl_packet ::
  "termios_api \<Rightarrow> AsyncPty \<Rightarrow> pty_iter
     \<Rightarrow> (PtyReadResult, io_error) Result option \<times> AsyncPty \<times> pty_syscall list" where
  "handle_ioctl_packet A self it =
     (let compare = (\<lambda>new_tio s.
            if check_termios_change A (current_tio self) new_tio
            then (let self' = self\<lparr>current_tio := new_tio\<rparr>
                  in (Some (Ok (PtyTermiosChange (get_termios_change A (current_tio self')))), self', s))
            else (None, self, s))
      in case it_tcget it of
           Err e \<Rightarrow> (Some (Err e), self, [])
         | Ok new_tio \<Rightarrow>
             if \<not> contains (local_flags new_tio) (EXTPROC A) then
               (case set_extproc A (it_ext_get it) (it_ext_set it) of
                  (Err e, s) \<Rightarrow> (Some (Err e), self, s)
                | (Ok _, s) \<Rightarrow>
                    (case it_tcget2 it of
                       Err e \<Rightarrow> (Some (Err e), self, s)
                     | Ok new_tio \<Rightarrow> compare new_tio s))
             else compare new_tio [])"

fun AsyncPty_read ::
  "termios_api \<Rightarrow> AsyncPty \<Rightarrow> u8 list \<Rightarrow> pty_iter list
     \<Rightarrow> ((PtyReadResult, io_error) Result \<times> AsyncPty \<times> u8 list \<times> pty_syscall list) option" where
  "AsyncPty_read A self buf [] = None"
| "AsyncPty_read A self buf (it # its) =
     (case it_readable it of
        Err e \<Rightarrow> Some (Err e, self, buf, [])
      | Ok _ \<Rightarrow>
      (case it_readv it of
         ReadvOk bs \<Rightarrow>
           (case bs of
              [] \<Rightarrow> Some (Err (IoError UnexpectedEof ''True EOF reached''), self, buf, [])
            | ctrl # data \<Rightarrow>
                let n = length bs; buf' = data @ drop (length data) buf in
                if ctrl = 0 then
                  (if n > 1 then Some (Ok (PtyData (n - 1)), self, buf', [])
                   else AsyncPty_read A self buf' its)
                else if and ctrl TIOCPKT_IOCTL \<noteq> 0 then
                  (case handle_ioctl_packet A self it of
                     (Some r, self', s) \<Rightarrow> Some (r, self', buf', s)
                   | (None, self', s) \<Rightarrow>
                       map_option (\<lambda>(r, p, b, s'). (r, p, b, s @ s')) (AsyncPty_read A self' buf' its))
                else Some (Ok (PtyControlMessage ctrl), self, buf', []))
       | ReadvErr e \<Rightarrow>
           if e = EAGAIN A then AsyncPty_read A self buf its
           else Some (Err (IoError (OsError e) []), self, buf, [])))"

section \<open>The write loop\<close>

datatype 'a Poll = Pending | Ready 'a

text \<open>
  One turn of the loop in \<open>poll_write\<close>: \<open>poll_write_ready\<close> is pending, fails, or is ready and the
  \<open>write\<close> inside \<open>try_io\<close> has the given outcome. \<open>try_io\<close> turns \<open>WouldBlock\<close> into another turn.
\<close>

datatype write_turn =
    NotReady
  | ReadyError io_error
  | Written "(nat, io_error) Result"

fun poll_write :: "write_turn list \<Rightarrow> (nat, io_error) Result Poll option" where
  "poll_write [] = None"
| "poll_write (NotReady # _) = Some Pending"
| "poll_write (ReadyError e # _) = Some (Ready (Err e))"
| "poll_write (Written (Ok n) # _) = Some (Ready (Ok n))"
| "poll_write (Written (Err e) # turns) =
     (if err_kind e = WouldBlock then poll_write turns else Some (Ready (Err e)))"

definition poll_flush :: "(unit, io_error) Result Poll" where
  "poll_flush = Ready (Ok ())"

definition poll_shutdown :: "(unit, io_error) Result Poll" where
  "poll_shutdown = Ready (Ok ())"

section \<open>Observations on runs\<close>

text \<open>The constants of the Linux platform; \<open>tio_rest\<close> stands for the speed here.\<close>

definition linux_termios :: termios_api where
  "linux_termios = \<lparr>
     cfgetispeed = (\<lambda>tio. if tio_rest tio = 4098 then B115200 else if tio_rest tio = 13 then B9600
                          else B_other (tio_rest tio)),
     CSIZE = 0x30, CS5 = 0, CS6 = 0x10, CS7 = 0x20, CS8 = 0x30, PARENB = 0x100, PARODD = 0x200,
     CSTOPB = 0x40, CRTSCTS = 0x80000000, EXTPROC = 0x10000, EAGAIN = 11, O_NONBLOCK = 0x800,
     from_bits_truncate = (\<lambda>b. b)\<rparr>"

text \<open>The bytes that an iteration took out of the terminal as data.\<close>

definition iter_data :: "pty_iter \<Rightarrow> u8 list" where
  "iter_data it =
     (case (it_readable it, it_readv it) of
        (Ok _, ReadvOk (c # data)) \<Rightarrow> if c = 0 then data else []
      | _ \<Rightarrow> [])"

text \<open>\<open>readv\<close> fills at most the control byte and a buffer of \<open>k\<close> bytes.\<close>

definition readv_fits :: "nat \<Rightarrow> pty_iter \<Rightarrow> bool" where
  "readv_fits k it = (case it_readv it of ReadvOk bs \<Rightarrow> length bs \<le> 1 + k | ReadvErr _ \<Rightarrow> True)"

text \<open>What the caller of \<open>read\<close> looks at: the result, the terminal, and the bytes it is told of.\<close>

definition read_view ::
  "(PtyReadResult, io_error) Result \<times> AsyncPty \<times> u8 list \<times> pty_syscall list
     \<Rightarrow> (PtyReadResult, io_error) Result \<times> AsyncPty \<times> u8 list" where
  "read_view = (\<lambda>(r, p, b, s). (r, p, case r of Ok (PtyData n) \<Rightarrow> take n b | _ \<Rightarrow> []))"

section \<open>Lemmas\<close>

lemma contains_subset:
  assumes "and x (or p q) = and y (or p q)"
  shows "contains x p = contains y p" and "contains x q = contains y q"
proof -
  have "and x p = and (and x (or p q)) p" and "and y p = and (and y (or p q)) p"
    and "and x q = and (and x (or p q)) q" and "and y q = and (and y (or p q)) q"
    by (rule bit_word_eqI; auto simp: bit_simps)+
  with assms show "contains x p = contains y p" and "contains x q = contains y q"
    by (simp_all add: contains_def)
qed

lemma contains_same: "and x p = and y p \<Longrightarrow> contains x p = contains y p"
  by (simp add: contains_def)

lemma unchanged_termios:
  assumes "\<not> check_termios_change A old new"
  shows "get_termios_change A old = get_termios_change A new"
proof -
  from assms have same: "cfgetispeed A old = cfgetispeed A new"
    "and (control_flags old) (CSIZE A) = and (control_flags new) (CSIZE A)"
    "and (control_flags old) (or (PARENB A) (PARODD A)) = and (control_flags new) (or (PARENB A) (PARODD A))"
    "and (control_flags old) (CRTSCTS A) = and (control_flags new) (CRTSCTS A)"
    "and (control_flags old) (CSTOPB A) = and (control_flags new) (CSTOPB A)"
    by (simp_all add: check_termios_change_def Let_def split: if_splits)
  show ?thesis
    using same(1,2) contains_subset [OF same(3)] contains_same [OF same(4)] contains_same [OF same(5)]
    by (simp add: get_termios_change_def Let_def)
qed

lemma handle_ioctl_None: "handle_ioctl_packet A self it = (None, self', s) \<Longrightarrow> self' = self"
  by (auto simp: handle_ioctl_packet_def Let_def split: Result.splits if_splits prod.splits)

lemma handle_ioctl_change:
  "handle_ioctl_packet A self it = (Some (Ok r), self', s) \<Longrightarrow>
     r = PtyTermiosChange (get_termios_change A (current_tio self'))
     \<and> check_termios_change A (current_tio self) (current_tio self')
     \<and> self' = self\<lparr>current_tio := current_tio self'\<rparr>"
  by (auto simp: handle_ioctl_packet_def Let_def split: Result.splits if_splits prod.splits)

text \<open>One turn of the loop returns, or goes on with the terminal as it was.\<close>

lemma AsyncPty_read_single:
  "AsyncPty_read A self buf [it] = Some (r, p, b, s) \<Longrightarrow> AsyncPty_read A self buf (it # its) = Some (r, p, b, s)"
  by (auto simp: Let_def split: Result.splits readv_out.splits list.splits if_splits prod.splits option.splits)

lemma AsyncPty_read_go_on:
  assumes "AsyncPty_read A self buf [it] = None"
  obtains buf' s where "iter_data it = []"
    and "\<And>its. AsyncPty_read A self buf (it # its)
           = map_option (\<lambda>(r, p, b, s'). (r, p, b, s @ s')) (AsyncPty_read A self buf' its)"
    and "readv_fits (length buf) it \<Longrightarrow> length buf' = length buf"
proof -
  note splits = Result.splits readv_out.splits list.splits if_splits prod.splits option.splits
  have idf: "map_option (\<lambda>(r, p, b, s'). (r, p, b, [] @ s')) x = x"
    for x :: "((PtyReadResult, io_error) Result \<times> AsyncPty \<times> u8 list \<times> pty_syscall list) option"
    by (cases x) auto
  obtain u where ok: "it_readable it = Ok u"
    using assms by (cases "it_readable it") auto
  show thesis
  proof (cases "it_readv it")
    case (ReadvErr e)
    with assms ok have "e = EAGAIN A" by (simp split: if_splits)
    with ok ReadvErr idf show thesis by (intro that [of "[]" buf]) (simp_all add: iter_data_def)
  next
    case (ReadvOk bs)
    with assms ok obtain ctrl data where bs: "bs = ctrl # data" by (cases bs) auto
    show thesis
    proof (cases "ctrl = 0")
      case True
      with assms ok ReadvOk bs have "data = []" by (simp add: Let_def split: if_splits)
      with True ok ReadvOk bs idf show thesis by (intro that [of "[]" buf]) (simp_all add: iter_data_def)
    next
      case False
      with assms ok ReadvOk bs have io: "and ctrl TIOCPKT_IOCTL \<noteq> 0" by (simp add: Let_def split: if_splits)
      obtain r self' s where h: "handle_ioctl_packet A self it = (r, self', s)" by (cases "handle_ioctl_packet A self it")
      with False io assms ok ReadvOk bs have "r = None" by (auto simp: Let_def split: option.splits)
      with h handle_ioctl_None have "handle_ioctl_packet A self it = (None, self, s)" by blast
      with False io ok ReadvOk bs show thesis
        by (intro that [of s "data @ drop (length data) buf"])
           (simp_all add: iter_data_def readv_fits_def Let_def)
    qed
  qed
qed

lemma read_view_syscalls:
  "map_option read_view (map_option (\<lambda>(r, p, b, s'). (r, p, b, s @ s')) x) = map_option read_view x"
  by (cases x) (auto simp: read_view_def)

lemma read_turn_view:
  "map_option read_view (AsyncPty_read A self buf [it]) = map_option read_view (AsyncPty_read A self buf2 [it])"
  by (auto simp: Let_def read_view_def split: Result.split readv_out.split list.split prod.split option.split
      dest!: handle_ioctl_change)

declare AsyncPty_read.simps(2) [simp del]

text \<open>What a caller sees does not depend on what was in its buffer.\<close>

lemma read_view_buf:
  "map_option read_view (AsyncPty_read A self buf its) = map_option read_view (AsyncPty_read A self buf2 its)"
proof (induction its arbitrary: buf buf2)
  case (Cons it its)
  show ?case
  proof (cases "AsyncPty_read A self buf [it]")
    case None
    with read_turn_view [of A self buf it buf2] have None2: "AsyncPty_read A self buf2 [it] = None"
      by (metis option.map_disc_iff)
    show ?thesis
      by (rule AsyncPty_read_go_on [OF None], rule AsyncPty_read_go_on [OF None2])
         (simp only: read_view_syscalls Cons.IH)
  next
    case (Some x)
    with read_turn_view [of A self buf it buf2]
    have "map_option read_view (AsyncPty_read A self buf2 [it]) = Some (read_view x)" by simp
    then obtain y where y: "AsyncPty_read A self buf2 [it] = Some y" "read_view x = read_view y" by auto
    obtain r p b s r' p' b' s' where xy: "x = (r, p, b, s)" "y = (r', p', b', s')"
      by (cases x, cases y)
    from AsyncPty_read_single Some xy(1) have "AsyncPty_read A self buf (it # its) = Some x" by blast
    moreover from AsyncPty_read_single y(1) xy(2) have "AsyncPty_read A self buf2 (it # its) = Some y" by blast
    ultimately show ?thesis using y(2) by simp
  qed
qed simp

lemma read_suspended_view:
  "AsyncPty_read A self buf pre = None \<Longrightarrow>
   map_option read_view (AsyncPty_read A self buf (pre @ post)) = map_option read_view (AsyncPty_read A self buf2 post)"
proof (induction pre arbitrary: buf)
  case Nil
  show ?case by (simp add: read_view_buf [of A self buf])
next
  case (Cons it pre)
  then have "AsyncPty_read A self buf [it] = None"
    using AsyncPty_read_single [of A self buf it _ _ _ _ pre] by (metis not_None_eq prod_cases4)
  then show ?case
  proof (rule AsyncPty_read_go_on)
    fix buf' s
    assume go: "\<And>its. AsyncPty_read A self buf (it # its)
        = map_option (\<lambda>(r, p, b, s'). (r, p, b, s @ s')) (AsyncPty_read A self buf' its)"
    from Cons.prems have "AsyncPty_read A self buf' pre = None" by (simp only: go option.map_disc_iff)
    from Cons.IH [OF this] show ?thesis by (simp only: append_Cons go read_view_syscalls)
  qed
qed

lemma read_turn_data:
  assumes "AsyncPty_read A self buf [it] = Some (Ok (PtyData n), p, b, s)" and "readv_fits (length buf) it"
  shows "p = self \<and> iter_data it = take n b \<and> 1 \<le> n \<and> n \<le> length buf \<and> length b = length buf"
proof -
  obtain u where ok: "it_readable it = Ok u" using assms(1) by (cases "it_readable it") (auto simp: AsyncPty_read.simps)
  obtain ctrl data where rv: "it_readv it = ReadvOk (ctrl # data)"
    using assms(1) ok by (cases "it_readv it") (auto simp: AsyncPty_read.simps split: list.splits if_splits)
  have "ctrl = 0 \<and> data \<noteq> [] \<and> n = length data \<and> p = self \<and> b = data @ drop (length data) buf"
    using assms(1) ok rv handle_ioctl_change [of A self it "PtyData n"]
    by (auto simp: AsyncPty_read.simps Let_def split: if_splits option.splits prod.splits)
  with assms(2) ok rv show ?thesis
    by (auto simp: iter_data_def readv_fits_def Suc_le_eq)
qed

lemma read_data:
  assumes "AsyncPty_read A self buf its = Some (Ok (PtyData n), p, b, s)"
    and "list_all (readv_fits (length buf)) its"
  shows "p = self \<and> 1 \<le> n \<and> n \<le> length buf \<and> length b = length buf \<and>
     (\<exists>pre it post. its = pre @ it # post \<and> concat (map iter_data pre) = [] \<and> iter_data it = take n b)"
  using assms
proof (induction its arbitrary: buf s)
  case (Cons it its)
  show ?case
  proof (cases "AsyncPty_read A self buf [it]")
    case None
    then show ?thesis
    proof (rule AsyncPty_read_go_on)
      fix buf' s'
      assume nil: "iter_data it = []" and go: "\<And>its. AsyncPty_read A self buf (it # its)
          = map_option (\<lambda>(r, p, b, s''). (r, p, b, s' @ s'')) (AsyncPty_read A self buf' its)"
        and len: "readv_fits (length buf) it \<Longrightarrow> length buf' = length buf"
      from Cons.prems go obtain s2 where "AsyncPty_read A self buf' its = Some (Ok (PtyData n), p, b, s2)"
        by auto
      from Cons.IH [OF this] Cons.prems(2) len
      obtain pre i post where "p = self" "1 \<le> n" "n \<le> length buf" "length b = length buf"
        "its = pre @ i # post" "concat (map iter_data pre) = []" "iter_data i = take n b"
        by auto
      with nil show ?thesis by (auto intro!: exI [of _ "it # pre"])
    qed
  next
    case (Some x)
    then have "AsyncPty_read A self buf [it] = Some (Ok (PtyData n), p, b, s)"
      using AsyncPty_read_single [of A self buf it _ _ _ _ its] Cons.prems(1) by (cases x) auto
    from read_turn_data [OF this] Cons.prems(2) show ?thesis
      by (auto intro!: exI [of _ "[]"])
  qed
qed simp

lemma read_length:
  "AsyncPty_read A self buf its = Some (r, p, b, s) \<Longrightarrow> list_all (readv_fits (length buf)) its
   \<Longrightarrow> length b = length buf"
proof (induction its arbitrary: buf s)
  case (Cons it its)
  show ?case
  proof (cases "AsyncPty_read A self buf [it]")
    case None
    then show ?thesis
    proof (rule AsyncPty_read_go_on)
      fix buf' s'
      assume go: "\<And>its. AsyncPty_read A self buf (it # its)
          = map_option (\<lambda>(r, p, b, s''). (r, p, b, s' @ s'')) (AsyncPty_read A self buf' its)"
        and len: "readv_fits (length buf) it \<Longrightarrow> length buf' = length buf"
      from Cons.prems(1) go obtain s2 where "AsyncPty_read A self buf' its = Some (r, p, b, s2)" by auto
      from Cons.IH [OF this] Cons.prems(2) len show ?thesis by simp
    qed
  next
    case (Some x)
    with Cons.prems(1) AsyncPty_read_single [of A self buf it _ _ _ _ its]
    have "AsyncPty_read A self buf [it] = Some (r, p, b, s)" by (cases x) auto
    with Cons.prems(2) show ?thesis
      by (auto simp: AsyncPty_read.simps readv_fits_def Let_def
          split: Result.splits readv_out.splits list.splits if_splits option.splits prod.splits)
  qed
qed simp

lemma read_turn_change:
  assumes "AsyncPty_read A self buf [it] = Some (Ok (PtyTermiosChange c), p, b, s)"
  shows "c = get_termios_change A (current_tio p) \<and> check_termios_change A (current_tio self) (current_tio p)
     \<and> p = self\<lparr>current_tio := current_tio p\<rparr>"
  using assms handle_ioctl_change [of A self it "PtyTermiosChange c" p s]
  by (auto simp: AsyncPty_read.simps Let_def
      split: Result.splits readv_out.splits list.splits if_splits option.splits prod.splits)

lemma read_change:
  assumes "AsyncPty_read A self buf its = Some (Ok (PtyTermiosChange c), p, b, s)"
  shows "c = get_termios_change A (current_tio p) \<and> check_termios_change A (current_tio self) (current_tio p)
     \<and> p = self\<lparr>current_tio := current_tio p\<rparr>"
  using assms
proof (induction its arbitrary: buf s)
  case (Cons it its)
  show ?case
  proof (cases "AsyncPty_read A self buf [it]")
    case None
    then show ?thesis
    proof (rule AsyncPty_read_go_on)
      fix buf' s'
      assume "\<And>its. AsyncPty_read A self buf (it # its)
          = map_option (\<lambda>(r, p, b, s''). (r, p, b, s' @ s'')) (AsyncPty_read A self buf' its)"
      with Cons.prems obtain s2 where "AsyncPty_read A self buf' its = Some (Ok (PtyTermiosChange c), p, b, s2)"
        by auto
      then show ?thesis by (rule Cons.IH)
    qed
  next
    case (Some x)
    then have "AsyncPty_read A self buf [it] = Some (Ok (PtyTermiosChange c), p, b, s)"
      using AsyncPty_read_single [of A self buf it _ _ _ _ its] Cons.prems by (cases x) auto
    then show ?thesis by (rule read_turn_change)
  qed
qed simp

section \<open>What the platform promises about character sizes\<close>

locale termios_platform =
  fixes A :: termios_api
  assumes csize_values: "and flags (CSIZE A) \<in> {CS5 A, CS6 A, CS7 A, CS8 A}"
    and csize_distinct: "distinct [CS5 A, CS6 A, CS7 A, CS8 A]"
begin

lemma data_bits_range: "tc_data_bits (get_termios_change A tio) \<in> {5, 6, 7, 8}"
  using csize_values [of "control_flags tio"] by (auto simp: get_termios_change_def Let_def)

end

lemma take_bit_2_cases: "take_bit 2 (y :: u32) \<in> {0, 1, 2, 3}"
  by (simp add: numeral_2_eq_2 take_bit_Suc mod_2_eq_odd)

lemma and_0x30: "and (x :: u32) 0x30 \<in> {0, 0x10, 0x20, 0x30}"
proof -
  have "(0x30 :: u32) = push_bit 4 (mask 2)" by (simp add: mask_eq_exp_minus_1)
  moreover have "and x (push_bit 4 (mask 2)) = push_bit 4 (take_bit 2 (drop_bit 4 x))"
    by (rule bit_word_eqI) (auto simp: bit_simps)
  ultimately have "and x 0x30 = push_bit 4 (take_bit 2 (drop_bit 4 x))" by simp
  with take_bit_2_cases [of "drop_bit 4 x"] show ?thesis by auto
qed

interpretation linux: termios_platform linux_termios
  by unfold_locales (use and_0x30 in \<open>simp_all add: linux_termios_def\<close>)

section \<open>Properties\<close>

text \<open>No change of the line settings that matters to the device is missed: when
  \<open>check_termios_change\<close> answers no, speed, data bits, parity, stop bits and flow control as they would
  be reported are the same, on any platform.\<close>

lemma termios_no_missed_change:
  assumes "get_termios_change A old \<noteq> get_termios_change A new"
  shows "check_termios_change A old new"
  using assms unchanged_termios by blast

text \<open>Every configuration that is reported has 5 to 8 data bits, 1 or 2 stop bits and parity 0, 1 or 2
  (none, odd, even), and two settings with different character sizes report different data bits.\<close>

lemma termios_change_range:
  assumes "termios_platform A"
  shows "tc_data_bits (get_termios_change A tio) \<in> {5, 6, 7, 8}
     \<and> tc_stop_bits (get_termios_change A tio) \<in> {1, 2} \<and> tc_parity (get_termios_change A tio) \<in> {0, 1, 2}
     \<and> (and (control_flags tio) (CSIZE A) \<noteq> and (control_flags tio2) (CSIZE A) \<longrightarrow>
         tc_data_bits (get_termios_change A tio) \<noteq> tc_data_bits (get_termios_change A tio2))"
proof (intro conjI impI)
  show "tc_data_bits (get_termios_change A tio) \<in> {5, 6, 7, 8}"
    by (rule termios_platform.data_bits_range [OF assms])
  show "tc_stop_bits (get_termios_change A tio) \<in> {1, 2}" and "tc_parity (get_termios_change A tio) \<in> {0, 1, 2}"
    by (simp_all add: get_termios_change_def Let_def)
  assume "and (control_flags tio) (CSIZE A) \<noteq> and (control_flags tio2) (CSIZE A)"
  then show "tc_data_bits (get_termios_change A tio) \<noteq> tc_data_bits (get_termios_change A tio2)"
    using termios_platform.csize_values [OF assms, of "control_flags tio"]
      termios_platform.csize_values [OF assms, of "control_flags tio2"] termios_platform.csize_distinct [OF assms]
    by (auto simp: get_termios_change_def Let_def)
qed

text \<open>C31. Reading the terminal is cancellation safe: a read that is dropped while it is suspended, as
  \<open>select!\<close> does when another branch is ready first, and is started again later (with any buffer),
  returns the same result, the same data bytes and the same terminal state as a read that was never
  dropped.\<close>

theorem pty_read_cancel_safe:
  assumes "AsyncPty_read A self buf pre = None"
  shows "map_option read_view (AsyncPty_read A self buf (pre @ post))
     = map_option read_view (AsyncPty_read A self buf2 post)"
  using assms by (rule read_suspended_view)

theorem pty_read_cancel_safe_witness:
  "map_option read_view (AsyncPty_read linux_termios
       \<lparr>pty_fd = 4, current_tio = \<lparr>control_flags = 0x30, local_flags = 0, tio_rest = 13\<rparr>, slave_fd = 5\<rparr> [0, 0]
       ([\<lparr>it_readable = Ok (), it_readv = ReadvErr 11, it_tcget = Err (IoError WouldBlock []),
         it_ext_get = Err (IoError WouldBlock []), it_ext_set = Ok (), it_tcget2 = Err (IoError WouldBlock [])\<rparr>]
        @ [\<lparr>it_readable = Ok (), it_readv = ReadvOk [0, 104, 105], it_tcget = Err (IoError WouldBlock []),
         it_ext_get = Err (IoError WouldBlock []), it_ext_set = Ok (), it_tcget2 = Err (IoError WouldBlock [])\<rparr>]))
     = Some (Ok (PtyData 2), \<lparr>pty_fd = 4, current_tio = \<lparr>control_flags = 0x30, local_flags = 0, tio_rest = 13\<rparr>,
         slave_fd = 5\<rparr>, [104, 105])"
  by (subst pty_read_cancel_safe [where ?buf2.0 = "[9, 9]"])
     (simp_all add: AsyncPty_read.simps linux_termios_def read_view_def)

text \<open>C32. A data result is exact: the \<open>n\<close> bytes it announces are all the data bytes of the packet that
  ended the loop, no earlier packet of the loop held data, \<open>n\<close> is at least one and fits the buffer, the
  buffer keeps its length and the terminal is unchanged.\<close>

theorem pty_read_data_exact:
  assumes "AsyncPty_read A self buf its = Some (Ok (PtyData n), self', buf', s)"
    and "list_all (readv_fits (length buf)) its"
  shows "self' = self \<and> 1 \<le> n \<and> n \<le> length buf \<and> length buf' = length buf \<and>
     (\<exists>pre it post. its = pre @ it # post \<and> concat (map iter_data pre) = [] \<and> iter_data it = take n buf')"
  using assms by (rule read_data)

theorem pty_read_data_exact_witness:
  "\<exists>pre it post. [\<lparr>it_readable = Ok (), it_readv = ReadvOk [0, 7], it_tcget = Err (IoError WouldBlock []),
         it_ext_get = Err (IoError WouldBlock []), it_ext_set = Ok (), it_tcget2 = Err (IoError WouldBlock [])\<rparr>]
       = pre @ it # post \<and> iter_data it = [7]"
proof -
  let ?it = "\<lparr>it_readable = Ok (), it_readv = ReadvOk [0, 7], it_tcget = Err (IoError WouldBlock []),
         it_ext_get = Err (IoError WouldBlock []), it_ext_set = Ok (), it_tcget2 = Err (IoError WouldBlock [])\<rparr>"
  let ?p = "\<lparr>pty_fd = 4, current_tio = \<lparr>control_flags = 0x30, local_flags = 0, tio_rest = 13\<rparr>, slave_fd = 5\<rparr>"
  have "AsyncPty_read linux_termios ?p [0, 0] [?it] = Some (Ok (PtyData 1), ?p, [7, 0], [])"
    by (simp add: AsyncPty_read.simps)
  from pty_read_data_exact [OF this] show ?thesis by (auto simp: readv_fits_def)
qed

text \<open>A reported change is the settings the terminal now remembers, and they differ from the ones it
  remembered before in a field that is reported: the next comparison starts from what was reported.\<close>

lemma pty_read_change_exact:
  assumes "AsyncPty_read A self buf its = Some (Ok (PtyTermiosChange c), self', buf', s)"
  shows "c = get_termios_change A (current_tio self') \<and>
     check_termios_change A (current_tio self) (current_tio self') \<and>
     self' = self\<lparr>current_tio := current_tio self'\<rparr>"
  using assms by (rule read_change)

text \<open>A terminal is only handed out in the mode the daemon needs: when \<open>AsyncPty::new\<close> succeeds it has
  switched the master to non-blocking and to packet mode and set \<open>EXTPROC\<close> on the slave it opened, in
  this order and with nothing else changed.\<close>

lemma pty_new_mode:
  assumes "AsyncPty_new A fd env = (Ok p, calls)"
  shows "\<exists>flags name tio. ne_getfl env = Ok flags \<and> ne_ptsname env = Ok name \<and> ne_ext_get env = Ok tio \<and>
     calls = [Fcntl_SETFL (or (from_bits_truncate A flags) (O_NONBLOCK A)), Ioctl_TIOCPKT 1, Open_slave name,
              Tcsetattr (tio\<lparr>local_flags := or (local_flags tio) (EXTPROC A)\<rparr>)] \<and>
     pty_fd p = fd \<and> ne_open env = Ok (slave_fd p) \<and> ne_tcgetattr env = Ok (current_tio p)"
  using assms
  by (auto simp: AsyncPty_new_def set_extproc_def Let_def split: Result.splits prod.splits)

text \<open>The write loop retries exactly on \<open>WouldBlock\<close>: its result is the outcome of the first turn that
  is not a write that would block, every turn before it was one, and it is still running when there is
  no such turn; \<open>WouldBlock\<close> of a write never reaches the caller.\<close>

lemma poll_write_retries:
  "poll_write turns =
     (case dropWhile (\<lambda>t. case t of Written (Err e) \<Rightarrow> err_kind e = WouldBlock | _ \<Rightarrow> False) turns of
        [] \<Rightarrow> None
      | NotReady # _ \<Rightarrow> Some Pending
      | ReadyError e # _ \<Rightarrow> Some (Ready (Err e))
      | Written r # _ \<Rightarrow> Some (Ready r))"
  by (induction turns rule: poll_write.induct) simp_all

end
