(* ===== verification/Readers.thy ===== *)
theory Readers
  imports Framing
begin

text \<open>
  A small calculus for decoders that read one field after another through a cursor and give up
  early. \<open>cur pre xs\<close> is the cursor that has read \<open>pre\<close> and has \<open>xs\<close> in front of it. A reader
  returns \<open>Ok None\<close> when it needs more bytes, \<open>Ok (Some v)\<close> with the cursor behind the value, or an
  error. \<open>reader_framed\<close> says that a reader behaves like a decoder of a framed stream: on every
  input it waits, or reads a value off the front, or fails, and in the last two cases further input
  makes no difference. Sequencing keeps this, so a decoder is framed because its fields are.
\<close>

section \<open>Readers\<close>

type_synonym 'a reader = "Cursor \<Rightarrow> ('a option, io_error) Result \<times> Cursor"

definition cur :: "u8 list \<Rightarrow> u8 list \<Rightarrow> Cursor" where
  "cur pre xs = \<lparr>inner = pre @ xs, position = length pre\<rparr>"

definition rpure :: "'a \<Rightarrow> 'a reader" where
  "rpure v c = (Ok (Some v), c)"

definition rfail :: "io_error \<Rightarrow> 'a reader" where
  "rfail e c = (Err e, c)"

text \<open>A \<open>try_*\<close> read of the crate; its failure means that more bytes are needed.\<close>

definition rtry :: "(Cursor \<Rightarrow> ('a \<times> Cursor) option) \<Rightarrow> 'a reader" where
  "rtry f c = (case f c of None \<Rightarrow> (Ok None, c) | Some (v, c') \<Rightarrow> (Ok (Some v), c'))"

definition rbind :: "'a reader \<Rightarrow> ('a \<Rightarrow> 'b reader) \<Rightarrow> 'b reader" where
  "rbind f g c =
     (case f c of
        (Err e, c') \<Rightarrow> (Err e, c')
      | (Ok None, c') \<Rightarrow> (Ok None, c')
      | (Ok (Some v), c') \<Rightarrow> g v c')"

text \<open>
  A decoder that runs a reader over its buffer and, if it got a value, advances the buffer to the
  cursor's position.
\<close>

definition run_reader :: "bytes_api \<Rightarrow> 'm reader \<Rightarrow> BytesMut \<Rightarrow> 'm decoded" where
  "run_reader B f src =
     (case f (Cursor_new src) of
        (Err e, _) \<Rightarrow> Some (Err e, src)
      | (Ok None, _) \<Rightarrow> Some (Ok None, src)
      | (Ok (Some m), c) \<Rightarrow>
          (case advance B (position c) src of
             None \<Rightarrow> panic
           | Some src' \<Rightarrow> Some (Ok (Some m), src')))"

definition reader_at :: "'a reader \<Rightarrow> u8 list \<Rightarrow> bool" where
  "reader_at f xs \<longleftrightarrow>
     (\<forall>pre. \<exists>c. f (cur pre xs) = (Ok None, c))
     \<or> (\<exists>v used r. xs = used @ r \<and> (\<forall>pre x. f (cur pre (xs @ x)) = (Ok (Some v), cur (pre @ used) (r @ x))))
     \<or> (\<exists>e. \<forall>pre x. \<exists>c. f (cur pre (xs @ x)) = (Err e, c))"

definition reader_framed :: "'a reader \<Rightarrow> bool" where
  "reader_framed f \<longleftrightarrow> (\<forall>xs. reader_at f xs)"

section \<open>Lemmas\<close>

lemma Cursor_new_cur: "Cursor_new src = cur [] src"
  by (simp add: Cursor_new_def cur_def)

lemma rest_cur [simp]: "rest (cur pre xs) = xs"
  by (simp add: rest_def cur_def)

lemma position_cur [simp]: "position (cur pre xs) = length pre"
  by (simp add: cur_def)

lemma skip_cur [simp]: "n \<le> length xs \<Longrightarrow> skip n (cur pre xs) = cur (pre @ take n xs) (drop n xs)"
  by (simp add: skip_def cur_def)

lemma reader_at_wait: "(\<And>pre. \<exists>c. f (cur pre xs) = (Ok None, c)) \<Longrightarrow> reader_at f xs"
  unfolding reader_at_def by blast

lemma reader_at_item:
  "xs = used @ r \<Longrightarrow> (\<And>pre x. f (cur pre (xs @ x)) = (Ok (Some v), cur (pre @ used) (r @ x)))
   \<Longrightarrow> reader_at f xs"
  unfolding reader_at_def by blast

lemma reader_at_error: "(\<And>pre x. \<exists>c. f (cur pre (xs @ x)) = (Err e, c)) \<Longrightarrow> reader_at f xs"
  unfolding reader_at_def by blast

lemma reader_at_cases [consumes 1, case_names Wait Item Error]:
  assumes "reader_at f xs"
  obtains "\<And>pre. \<exists>c. f (cur pre xs) = (Ok None, c)"
    | v used r where "xs = used @ r"
        "\<And>pre x. f (cur pre (xs @ x)) = (Ok (Some v), cur (pre @ used) (r @ x))"
    | e where "\<And>pre x. \<exists>c. f (cur pre (xs @ x)) = (Err e, c)"
proof -
  from assms consider (A) "\<forall>pre. \<exists>c. f (cur pre xs) = (Ok None, c)"
    | (B) v used r where "xs = used @ r"
        "\<forall>pre x. f (cur pre (xs @ x)) = (Ok (Some v), cur (pre @ used) (r @ x))"
    | (C) e where "\<forall>pre x. \<exists>c. f (cur pre (xs @ x)) = (Err e, c)"
    unfolding reader_at_def by (elim disjE exE conjE)
  then show thesis
  proof cases
    case A
    show thesis by (rule that(1)) (rule A [rule_format])
  next
    case B
    show thesis by (rule that(2) [OF B(1)]) (rule B(2) [rule_format])
  next
    case C
    show thesis by (rule that(3)) (rule C [rule_format])
  qed
qed

lemma reader_framedI: "(\<And>xs. reader_at f xs) \<Longrightarrow> reader_framed f"
  by (simp add: reader_framed_def)

lemma reader_framedD: "reader_framed f \<Longrightarrow> reader_at f xs"
  by (simp add: reader_framed_def)

lemma reader_framed_rpure [simp]: "reader_framed (rpure v)"
  by (intro reader_framedI reader_at_item [of _ "[]"]) (simp_all add: rpure_def)

lemma reader_framed_rfail [simp]: "reader_framed (rfail e)"
  by (intro reader_framedI reader_at_error) (simp add: rfail_def)

lemma reader_framed_rbind [simp]:
  assumes "reader_framed f" and "\<And>v. reader_framed (g v)"
  shows "reader_framed (rbind f g)"
proof (rule reader_framedI)
  fix xs
  from assms(1) have "reader_at f xs" by (rule reader_framedD)
  then show "reader_at (rbind f g) xs"
  proof (cases rule: reader_at_cases)
    case Wait
    have "\<exists>c. rbind f g (cur pre xs) = (Ok None, c)" for pre
    proof -
      from Wait [of pre] obtain c where "f (cur pre xs) = (Ok None, c)" ..
      then show ?thesis by (simp add: rbind_def)
    qed
    then show ?thesis by (rule reader_at_wait)
  next
    case (Item v used r)
    then have h: "rbind f g (cur pre (xs @ x)) = g v (cur (pre @ used) (r @ x))" for pre x
      by (simp add: rbind_def)
    from assms(2) have "reader_at (g v) r" by (rule reader_framedD)
    then show ?thesis
    proof (cases rule: reader_at_cases)
      case Wait
      with h [where x = "[]"] show ?thesis by (intro reader_at_wait) simp
    next
      case (Item w used' r')
      with h \<open>xs = used @ r\<close> show ?thesis
        by (intro reader_at_item [of _ "used @ used'" r' _ w]) simp_all
    next
      case (Error e)
      with h show ?thesis by (intro reader_at_error) simp
    qed
  next
    case (Error e)
    have "\<exists>c. rbind f g (cur pre (xs @ x)) = (Err e, c)" for pre x
    proof -
      from Error [of pre x] obtain c where "f (cur pre (xs @ x)) = (Err e, c)" ..
      then show ?thesis by (simp add: rbind_def)
    qed
    then show ?thesis by (rule reader_at_error)
  qed
qed

context bytes_crate
begin

lemma rtry_u8 [simp]:
  "rtry (try_get_u8 B) (cur pre []) = (Ok None, cur pre [])"
  "rtry (try_get_u8 B) (cur pre (a # r)) = (Ok (Some a), cur (pre @ [a]) r)"
  by (simp_all add: rtry_def reads)

lemma rtry_u16 [simp]:
  "rtry (try_get_u16 B) (cur pre (be16 v @ r)) = (Ok (Some v), cur (pre @ be16 v) r)"
  by (simp add: rtry_def reads be16_def)

lemma rtry_u32 [simp]:
  "rtry (try_get_u32 B) (cur pre (be32 v @ r)) = (Ok (Some v), cur (pre @ be32 v) r)"
  by (simp add: rtry_def reads be32_def)

lemma rtry_slice [simp]:
  "length bs = n \<Longrightarrow> rtry (try_copy_to_slice B n) (cur pre (bs @ r)) = (Ok (Some bs), cur (pre @ bs) r)"
  by (simp add: rtry_def reads)

text \<open>A read that looks at a fixed number of bytes is framed.\<close>

lemma reader_framed_width:
  assumes short: "\<And>pre xs. length xs < n \<Longrightarrow> rtry f (cur pre xs) = (Ok None, cur pre xs)"
    and full: "\<And>pre xs x. length xs = n \<Longrightarrow> rtry f (cur pre (xs @ x)) = (Ok (Some (val xs)), cur (pre @ xs) x)"
  shows "reader_framed (rtry f)"
proof (rule reader_framedI)
  fix xs
  show "reader_at (rtry f) xs"
  proof (cases "length xs < n")
    case True
    then show ?thesis by (intro reader_at_wait) (simp add: short)
  next
    case False
    have "rtry f (cur pre (xs @ x)) = (Ok (Some (val (take n xs))), cur (pre @ take n xs) (drop n xs @ x))"
      for pre x
      using full [of "take n xs" pre "drop n xs @ x"] False by (simp flip: append.assoc)
    then show ?thesis by (intro reader_at_item [of _ "take n xs" "drop n xs"]) simp_all
  qed
qed

lemma reader_framed_u8 [simp]: "reader_framed (rtry (try_get_u8 B))"
  by (rule reader_framed_width [of 1 _ "\<lambda>xs. xs ! 0"])
     (auto simp: rtry_def reads length_Suc_conv)

lemma reader_framed_u16 [simp]: "reader_framed (rtry (try_get_u16 B))"
  by (rule reader_framed_width [of 2 _ "\<lambda>xs. of_be16 (xs ! 0) (xs ! 1)"])
     (auto simp: rtry_def reads length_Suc_conv numeral_eq_Suc less_Suc_eq split: list.split)

lemma reader_framed_u32 [simp]: "reader_framed (rtry (try_get_u32 B))"
  by (rule reader_framed_width [of 4 _ "\<lambda>xs. of_be32 (xs ! 0) (xs ! 1) (xs ! 2) (xs ! 3)"])
     (auto simp: rtry_def reads length_Suc_conv numeral_eq_Suc less_Suc_eq split: list.split)

lemma reader_framed_slice [simp]: "reader_framed (rtry (try_copy_to_slice B n))"
  by (rule reader_framed_width [of n _ "\<lambda>xs. xs"]) (simp_all add: rtry_def reads)

text \<open>A decoder that starts by reading a byte and goes on with a framed reader.\<close>

lemma run_reader_framed:
  assumes "\<And>k. reader_framed (g k)"
  shows "framed_at (run_reader B (rbind (rtry (try_get_u8 B)) g)) src"
proof (cases src)
  case Nil
  then show ?thesis
    by (intro framed_at_wait) (simp add: run_reader_def rbind_def Cursor_new_cur)
next
  case (Cons k body)
  let ?d = "run_reader B (rbind (rtry (try_get_u8 B)) g)"
  have d: "?d (src @ x) = (case g k (cur [k] (body @ x)) of
        (Err e, _) \<Rightarrow> Some (Err e, src @ x)
      | (Ok None, _) \<Rightarrow> Some (Ok None, src @ x)
      | (Ok (Some m), c) \<Rightarrow>
          (case advance B (position c) (src @ x) of
             None \<Rightarrow> panic | Some src' \<Rightarrow> Some (Ok (Some m), src')))" for x
    unfolding Cons append_Cons by (simp add: run_reader_def rbind_def Cursor_new_cur)
  from assms [of k] have "reader_at (g k) body" by (rule reader_framedD)
  then show ?thesis
  proof (cases rule: reader_at_cases)
    case Wait
    from Wait [of "[k]"] obtain c where "g k (cur [k] body) = (Ok None, c)" ..
    with d [of "[]"] show ?thesis by (intro framed_at_wait) simp
  next
    case (Item v used r)
    with Cons d show ?thesis
      by (intro framed_at_item [of _ "k # used" r _ v]) simp_all
  next
    case (Error e)
    show ?thesis
    proof (rule framed_at_error)
      fix x
      from Error [of "[k]" x] obtain c where "g k (cur [k] (body @ x)) = (Err e, c)" ..
      with d [of x] show "?d (src @ x) = Some (Err e, src @ x)" by simp
    qed
  qed
qed

lemma run_reader_value:
  assumes "f (cur [] src) = (Ok (Some m), cur src [])"
  shows "run_reader B f src = Some (Ok (Some m), [])"
  using assms by (simp add: run_reader_def Cursor_new_cur)

end

section \<open>What a reader can yield\<close>

text \<open>Every value that a reader yields, on whatever bytes, has the property.\<close>

definition yields :: "'a reader \<Rightarrow> ('a \<Rightarrow> bool) \<Rightarrow> bool" where
  "yields f P \<longleftrightarrow> (\<forall>c v c'. f c = (Ok (Some v), c') \<longrightarrow> P v)"

lemma yields_rpure [simp]: "yields (rpure v) P \<longleftrightarrow> P v"
  by (simp add: yields_def rpure_def)

lemma yields_rfail [simp]: "yields (rfail e) P"
  by (simp add: yields_def rfail_def)

lemma yields_rbind: "yields f Q \<Longrightarrow> (\<And>v. Q v \<Longrightarrow> yields (g v) P) \<Longrightarrow> yields (rbind f g) P"
  by (fastforce simp: yields_def rbind_def split: prod.splits Result.splits option.splits)

lemma yields_rtry: "(\<And>v. yields (g v) P) \<Longrightarrow> yields (rbind (rtry r) g) P"
  by (rule yields_rbind [where Q = "\<lambda>_. True"]) (simp_all add: yields_def)

lemma run_reader_yields:
  "run_reader B f src = Some (Ok (Some m), r) \<Longrightarrow> yields f P \<Longrightarrow> P m"
  by (auto simp: run_reader_def yields_def split: prod.splits Result.splits option.splits)

end
