(* ===== verification/Ctl_Codec.thy ===== *)
theory Ctl_Codec
  imports Readers
begin

text \<open>
  The protocol between the CLI and the daemon over the Unix socket (\<open>common/src/ctl.rs\<close>): requests,
  responses, and their codecs. A message is a type byte and its fields; a string is a length byte
  and its bytes; a list of connections is a \<open>u16\<close> count and the entries.

  The encoders cannot panic, so they return a plain pair of the result and the buffer; an error
  leaves in the buffer what was written before it. The decoders are shown to be readers of
  \<open>Readers\<close>, which gives the stream laws for both directions.
\<close>

section \<open>Requests and responses\<close>

datatype DaemonRequest =
    ReqAdd rstring u32 u16 \<comment> \<open>name, addr, port\<close>
  | ReqRemove rstring
  | ReqList
  | ReqReset rstring

record ConnectionInfo =
  ci_name :: rstring
  ci_addr :: u32
  ci_port :: u16
  ci_pts_path :: rstring
  ci_connected :: bool

datatype DaemonResponse =
    AddOk rstring
  | RemoveOk
  | RespList "ConnectionInfo list"
  | ResetOk
  | RespError rstring

fun DaemonRequest_msg_type :: "DaemonRequest \<Rightarrow> u8" where
  "DaemonRequest_msg_type (ReqAdd _ _ _) = 1"
| "DaemonRequest_msg_type (ReqRemove _) = 2"
| "DaemonRequest_msg_type ReqList = 3"
| "DaemonRequest_msg_type (ReqReset _) = 4"

fun DaemonResponse_msg_type :: "DaemonResponse \<Rightarrow> u8" where
  "DaemonResponse_msg_type (AddOk _) = 1"
| "DaemonResponse_msg_type RemoveOk = 2"
| "DaemonResponse_msg_type (RespList _) = 3"
| "DaemonResponse_msg_type ResetOk = 4"
| "DaemonResponse_msg_type (RespError _) = 255"

section \<open>Strings on the wire\<close>

definition encode_str :: "bytes_api \<Rightarrow> rstring \<Rightarrow> BytesMut \<Rightarrow> (unit, io_error) Result \<times> BytesMut" where
  "encode_str B s dst =
     (let sz = length s
      in if sz > 255 then (Err (IoError InvalidInput ''string too long''), dst)
         else (Ok (), put_slice B s (put_u8 B (of_nat sz) dst)))"

definition decode_str :: "bytes_api \<Rightarrow> rstring reader" where
  "decode_str B cursor =
     (case try_get_u8 B cursor of
        None \<Rightarrow> (Ok None, cursor)
      | Some (sz, cursor) \<Rightarrow>
          (case try_copy_to_slice B (unat sz) cursor of
             None \<Rightarrow> (Ok None, cursor)
           | Some (buf, cursor) \<Rightarrow>
               (case from_utf8 buf of
                  Err _ \<Rightarrow> (Err (IoError InvalidData ''invalid string''), cursor)
                | Ok s \<Rightarrow> (Ok (Some s), cursor))))"

section \<open>Requests: encoder and decoder\<close>

definition DaemonRequestEncoder_encode ::
  "bytes_api \<Rightarrow> DaemonRequest \<Rightarrow> BytesMut \<Rightarrow> (unit, io_error) Result \<times> BytesMut" where
  "DaemonRequestEncoder_encode B item dst0 =
     (let dst = put_u8 B (DaemonRequest_msg_type item) dst0
      in case item of
           ReqAdd name addr port \<Rightarrow>
             (case encode_str B name dst of
                (Err e, dst) \<Rightarrow> (Err e, dst)
              | (Ok _, dst) \<Rightarrow> (Ok (), put_u16 B port (put_u32 B addr dst)))
         | ReqRemove name \<Rightarrow>
             (case encode_str B name dst of (Err e, dst) \<Rightarrow> (Err e, dst) | (Ok _, dst) \<Rightarrow> (Ok (), dst))
         | ReqList \<Rightarrow> (Ok (), dst)
         | ReqReset name \<Rightarrow>
             (case encode_str B name dst of (Err e, dst) \<Rightarrow> (Err e, dst) | (Ok _, dst) \<Rightarrow> (Ok (), dst)))"

definition DaemonRequestDecoder_decode :: "bytes_api \<Rightarrow> BytesMut \<Rightarrow> DaemonRequest decoded" where
  "DaemonRequestDecoder_decode B src =
     (let wait = Some (Ok None, src);
          fail = (\<lambda>e. Some (Err e, src));
          finish = (\<lambda>msg cursor.
            case advance B (position cursor) src of
              None \<Rightarrow> panic
            | Some src' \<Rightarrow> Some (Ok (Some msg), src'))
      in case try_get_u8 B (Cursor_new src) of None \<Rightarrow> wait | Some (message_kind, cursor) \<Rightarrow>
         if message_kind = 1 then
           (case decode_str B cursor of
              (Err e, _) \<Rightarrow> fail e
            | (Ok None, _) \<Rightarrow> wait
            | (Ok (Some name), cursor) \<Rightarrow>
                case try_get_u32 B cursor of None \<Rightarrow> wait | Some (addr, cursor) \<Rightarrow>
                case try_get_u16 B cursor of None \<Rightarrow> wait | Some (port, cursor) \<Rightarrow>
                finish (ReqAdd name addr port) cursor)
         else if message_kind = 2 then
           (case decode_str B cursor of
              (Err e, _) \<Rightarrow> fail e
            | (Ok None, _) \<Rightarrow> wait
            | (Ok (Some name), cursor) \<Rightarrow> finish (ReqRemove name) cursor)
         else if message_kind = 3 then finish ReqList cursor
         else if message_kind = 4 then
           (case decode_str B cursor of
              (Err e, _) \<Rightarrow> fail e
            | (Ok None, _) \<Rightarrow> wait
            | (Ok (Some name), cursor) \<Rightarrow> finish (ReqReset name) cursor)
         else fail (IoError InvalidData ''unknown message type''))"

section \<open>Responses: encoder and decoder\<close>

text \<open>The loop over the connections of a list response.\<close>

fun encode_connections ::
  "bytes_api \<Rightarrow> ConnectionInfo list \<Rightarrow> BytesMut \<Rightarrow> (unit, io_error) Result \<times> BytesMut" where
  "encode_connections B [] dst = (Ok (), dst)"
| "encode_connections B (conn # connections) dst =
     (case encode_str B (ci_name conn) dst of
        (Err e, dst) \<Rightarrow> (Err e, dst)
      | (Ok _, dst) \<Rightarrow>
          (case encode_str B (ci_pts_path conn) (put_u16 B (ci_port conn) (put_u32 B (ci_addr conn) dst)) of
             (Err e, dst) \<Rightarrow> (Err e, dst)
           | (Ok _, dst) \<Rightarrow>
               encode_connections B connections (put_u8 B (of_bool (ci_connected conn)) dst)))"

definition DaemonResponseEncoder_encode ::
  "bytes_api \<Rightarrow> DaemonResponse \<Rightarrow> BytesMut \<Rightarrow> (unit, io_error) Result \<times> BytesMut" where
  "DaemonResponseEncoder_encode B item dst0 =
     (let dst = put_u8 B (DaemonResponse_msg_type item) dst0
      in case item of
           AddOk pts_path \<Rightarrow>
             (case encode_str B pts_path dst of (Err e, dst) \<Rightarrow> (Err e, dst) | (Ok _, dst) \<Rightarrow> (Ok (), dst))
         | RemoveOk \<Rightarrow> (Ok (), dst)
         | RespList connections \<Rightarrow>
             encode_connections B connections (put_u16 B (of_nat (length connections)) dst)
         | ResetOk \<Rightarrow> (Ok (), dst)
         | RespError msg \<Rightarrow>
             (case encode_str B msg dst of (Err e, dst) \<Rightarrow> (Err e, dst) | (Ok _, dst) \<Rightarrow> (Ok (), dst)))"

text \<open>The loop \<open>for _ in 0..count\<close>, with the vector it pushes to.\<close>

fun decode_connections :: "bytes_api \<Rightarrow> nat \<Rightarrow> ConnectionInfo list \<Rightarrow> ConnectionInfo list reader" where
  "decode_connections B 0 connections cursor = (Ok (Some connections), cursor)"
| "decode_connections B (Suc n) connections cursor =
     (case decode_str B cursor of
        (Err e, cursor) \<Rightarrow> (Err e, cursor)
      | (Ok None, cursor) \<Rightarrow> (Ok None, cursor)
      | (Ok (Some name), cursor) \<Rightarrow>
      case try_get_u32 B cursor of None \<Rightarrow> (Ok None, cursor) | Some (addr, cursor) \<Rightarrow>
      case try_get_u16 B cursor of None \<Rightarrow> (Ok None, cursor) | Some (port, cursor) \<Rightarrow>
      (case decode_str B cursor of
         (Err e, cursor) \<Rightarrow> (Err e, cursor)
       | (Ok None, cursor) \<Rightarrow> (Ok None, cursor)
       | (Ok (Some pts_path), cursor) \<Rightarrow>
       case try_get_u8 B cursor of
         None \<Rightarrow> (Ok None, cursor)
       | Some (c, cursor) \<Rightarrow>
           if c < 2 then
             decode_connections B n
               (connections @ [\<lparr>ci_name = name, ci_addr = addr, ci_port = port, ci_pts_path = pts_path,
                                ci_connected = (c \<noteq> 0)\<rparr>]) cursor
           else (Err (IoError InvalidData (''invalid connected value: '' @ show_nat (unat c))), cursor)))"

definition DaemonResponseDecoder_decode :: "bytes_api \<Rightarrow> BytesMut \<Rightarrow> DaemonResponse decoded" where
  "DaemonResponseDecoder_decode B src =
     (let wait = Some (Ok None, src);
          fail = (\<lambda>e. Some (Err e, src));
          finish = (\<lambda>response cursor.
            case advance B (position cursor) src of
              None \<Rightarrow> panic
            | Some src' \<Rightarrow> Some (Ok (Some response), src'))
      in case try_get_u8 B (Cursor_new src) of None \<Rightarrow> wait | Some (message_kind, cursor) \<Rightarrow>
         if message_kind = 1 then
           (case decode_str B cursor of
              (Err e, _) \<Rightarrow> fail e
            | (Ok None, _) \<Rightarrow> wait
            | (Ok (Some pts_path), cursor) \<Rightarrow> finish (AddOk pts_path) cursor)
         else if message_kind = 2 then finish RemoveOk cursor
         else if message_kind = 3 then
           (case try_get_u16 B cursor of None \<Rightarrow> wait | Some (count, cursor) \<Rightarrow>
            case decode_connections B (unat count) [] cursor of
              (Err e, _) \<Rightarrow> fail e
            | (Ok None, _) \<Rightarrow> wait
            | (Ok (Some connections), cursor) \<Rightarrow> finish (RespList connections) cursor)
         else if message_kind = 4 then finish ResetOk cursor
         else if message_kind = 255 then
           (case decode_str B cursor of
              (Err e, _) \<Rightarrow> fail e
            | (Ok None, _) \<Rightarrow> wait
            | (Ok (Some msg), cursor) \<Rightarrow> finish (RespError msg) cursor)
         else fail (IoError InvalidData ''unknown response type''))"

section \<open>The wire image of well-formed messages\<close>

text \<open>A string that fits its length byte and keeps the promise of its type.\<close>

definition str_ok :: "rstring \<Rightarrow> bool" where
  "str_ok s \<longleftrightarrow> length s \<le> 255 \<and> utf8_valid s"

definition str_wire :: "rstring \<Rightarrow> u8 list" where
  "str_wire s = of_nat (length s) # s"

fun request_ok :: "DaemonRequest \<Rightarrow> bool" where
  "request_ok (ReqAdd name _ _) = str_ok name"
| "request_ok (ReqRemove name) = str_ok name"
| "request_ok ReqList = True"
| "request_ok (ReqReset name) = str_ok name"

fun request_fields :: "DaemonRequest \<Rightarrow> u8 list" where
  "request_fields (ReqAdd name addr port) = str_wire name @ be32 addr @ be16 port"
| "request_fields (ReqRemove name) = str_wire name"
| "request_fields ReqList = []"
| "request_fields (ReqReset name) = str_wire name"

definition request_wire :: "DaemonRequest \<Rightarrow> u8 list" where
  "request_wire m = DaemonRequest_msg_type m # request_fields m"

definition info_ok :: "ConnectionInfo \<Rightarrow> bool" where
  "info_ok c \<longleftrightarrow> str_ok (ci_name c) \<and> str_ok (ci_pts_path c)"

definition info_wire :: "ConnectionInfo \<Rightarrow> u8 list" where
  "info_wire c = str_wire (ci_name c) @ be32 (ci_addr c) @ be16 (ci_port c) @ str_wire (ci_pts_path c)
     @ [of_bool (ci_connected c)]"

fun response_ok :: "DaemonResponse \<Rightarrow> bool" where
  "response_ok (AddOk path) = str_ok path"
| "response_ok RemoveOk = True"
| "response_ok (RespList cs) = (length cs \<le> 65535 \<and> list_all info_ok cs)"
| "response_ok ResetOk = True"
| "response_ok (RespError msg) = str_ok msg"

fun response_fields :: "DaemonResponse \<Rightarrow> u8 list" where
  "response_fields (AddOk path) = str_wire path"
| "response_fields RemoveOk = []"
| "response_fields (RespList cs) = be16 (of_nat (length cs)) @ concat (map info_wire cs)"
| "response_fields ResetOk = []"
| "response_fields (RespError msg) = str_wire msg"

definition response_wire :: "DaemonResponse \<Rightarrow> u8 list" where
  "response_wire m = DaemonResponse_msg_type m # response_fields m"

section \<open>The decoders as readers\<close>

definition request_reader :: "bytes_api \<Rightarrow> u8 \<Rightarrow> DaemonRequest reader" where
  "request_reader B k =
     (if k = 1 then
        rbind (decode_str B) (\<lambda>name. rbind (rtry (try_get_u32 B)) (\<lambda>addr.
          rbind (rtry (try_get_u16 B)) (\<lambda>port. rpure (ReqAdd name addr port))))
      else if k = 2 then rbind (decode_str B) (\<lambda>name. rpure (ReqRemove name))
      else if k = 3 then rpure ReqList
      else if k = 4 then rbind (decode_str B) (\<lambda>name. rpure (ReqReset name))
      else rfail (IoError InvalidData ''unknown message type''))"

definition info_reader :: "bytes_api \<Rightarrow> ConnectionInfo reader" where
  "info_reader B =
     rbind (decode_str B) (\<lambda>name. rbind (rtry (try_get_u32 B)) (\<lambda>addr. rbind (rtry (try_get_u16 B)) (\<lambda>port.
     rbind (decode_str B) (\<lambda>pts_path. rbind (rtry (try_get_u8 B)) (\<lambda>c.
       if c < 2 then rpure \<lparr>ci_name = name, ci_addr = addr, ci_port = port, ci_pts_path = pts_path,
                           ci_connected = (c \<noteq> 0)\<rparr>
       else rfail (IoError InvalidData (''invalid connected value: '' @ show_nat (unat c))))))))"

definition response_reader :: "bytes_api \<Rightarrow> u8 \<Rightarrow> DaemonResponse reader" where
  "response_reader B k =
     (if k = 1 then rbind (decode_str B) (\<lambda>path. rpure (AddOk path))
      else if k = 2 then rpure RemoveOk
      else if k = 3 then
        rbind (rtry (try_get_u16 B)) (\<lambda>count.
          rbind (decode_connections B (unat count) []) (\<lambda>cs. rpure (RespList cs)))
      else if k = 4 then rpure ResetOk
      else if k = 255 then rbind (decode_str B) (\<lambda>msg. rpure (RespError msg))
      else rfail (IoError InvalidData ''unknown response type''))"

lemmas reader_defs = rbind_def rtry_def rpure_def rfail_def
lemmas reader_splits = option.split prod.split Result.split

lemma decode_str_reader:
  "decode_str B = rbind (rtry (try_get_u8 B)) (\<lambda>n. rbind (rtry (try_copy_to_slice B (unat n)))
     (\<lambda>buf. if utf8_valid buf then rpure buf else rfail (IoError InvalidData ''invalid string'')))"
  by (rule ext) (simp add: decode_str_def reader_defs from_utf8_def split: reader_splits)

lemma request_decoder_reader:
  "DaemonRequestDecoder_decode B = run_reader B (rbind (rtry (try_get_u8 B)) (request_reader B))"
  by (rule ext) (simp add: DaemonRequestDecoder_decode_def run_reader_def request_reader_def reader_defs
      Let_def split: reader_splits)

lemma decode_connections_reader:
  "decode_connections B (Suc n) cs = rbind (info_reader B) (\<lambda>c. decode_connections B n (cs @ [c]))"
  by (rule ext) (simp add: info_reader_def reader_defs split: reader_splits)

lemma response_decoder_reader:
  "DaemonResponseDecoder_decode B = run_reader B (rbind (rtry (try_get_u8 B)) (response_reader B))"
  by (rule ext) (simp add: DaemonResponseDecoder_decode_def run_reader_def response_reader_def reader_defs
      Let_def split: reader_splits)

declare decode_connections.simps(2) [simp del]

context bytes_crate
begin

lemma decode_str_framed [simp]: "reader_framed (decode_str B)"
  by (simp add: decode_str_reader)

lemma request_reader_framed [simp]: "reader_framed (request_reader B k)"
  by (simp add: request_reader_def)

lemma info_reader_framed [simp]: "reader_framed (info_reader B)"
  by (simp add: info_reader_def)

lemma decode_connections_framed [simp]: "reader_framed (decode_connections B n cs)"
proof (induction n arbitrary: cs)
  case 0
  have "decode_connections B 0 cs = rpure cs" by (rule ext) (simp add: rpure_def)
  then show ?case by simp
next
  case (Suc n)
  then show ?case by (simp add: decode_connections_reader)
qed

lemma response_reader_framed [simp]: "reader_framed (response_reader B k)"
  by (simp add: response_reader_def)

end

section \<open>Round trips field by field\<close>

context bytes_crate
begin

lemma encode_str_ok [simp]: "length s \<le> 255 \<Longrightarrow> encode_str B s dst = (Ok (), dst @ str_wire s)"
  by (simp add: encode_str_def str_wire_def)

lemma encode_str_too_long [simp]:
  "255 < length s \<Longrightarrow> encode_str B s dst = (Err (IoError InvalidInput ''string too long''), dst)"
  by (simp add: encode_str_def)

lemma decode_str_wire [simp]:
  "str_ok s \<Longrightarrow> decode_str B (cur pre (str_wire s @ r)) = (Ok (Some s), cur (pre @ str_wire s) r)"
  by (simp add: decode_str_reader rbind_def rpure_def str_wire_def str_ok_def)

lemma request_encode_wire:
  "request_ok m \<Longrightarrow> DaemonRequestEncoder_encode B m dst = (Ok (), dst @ request_wire m)"
  by (cases m) (simp_all add: DaemonRequestEncoder_encode_def request_wire_def str_ok_def)

lemma request_reader_wire:
  "request_ok m \<Longrightarrow> request_reader B (DaemonRequest_msg_type m) (cur pre (request_fields m @ r))
     = (Ok (Some m), cur (pre @ request_fields m) r)"
  by (cases m) (simp_all add: request_reader_def rbind_def rpure_def)

lemma request_decode_wire:
  assumes "request_ok m"
  shows "DaemonRequestDecoder_decode B (request_wire m) = Some (Ok (Some m), [])"
  unfolding request_decoder_reader
  by (rule run_reader_value)
     (simp add: rbind_def request_wire_def request_reader_wire [OF assms, where r = "[]", simplified])

lemma info_reader_wire:
  assumes "info_ok c"
  shows "info_reader B (cur pre (info_wire c @ r)) = (Ok (Some c), cur (pre @ info_wire c) r)"
  using assms by (cases c) (simp add: info_reader_def info_wire_def info_ok_def rbind_def rpure_def)

lemma encode_connections_wire:
  "list_all info_ok cs \<Longrightarrow> encode_connections B cs dst = (Ok (), dst @ concat (map info_wire cs))"
  by (induction cs arbitrary: dst) (simp_all add: info_ok_def info_wire_def str_ok_def)

lemma decode_connections_wire:
  "list_all info_ok cs \<Longrightarrow> decode_connections B (length cs) acc (cur pre (concat (map info_wire cs) @ r))
     = (Ok (Some (acc @ cs)), cur (pre @ concat (map info_wire cs)) r)"
  by (induction cs arbitrary: acc pre)
     (simp_all add: decode_connections_reader rbind_def info_reader_wire)

lemma response_encode_wire:
  "response_ok m \<Longrightarrow> DaemonResponseEncoder_encode B m dst = (Ok (), dst @ response_wire m)"
  by (cases m)
     (simp_all add: DaemonResponseEncoder_encode_def response_wire_def str_ok_def encode_connections_wire)

lemma response_reader_wire:
  "response_ok m \<Longrightarrow> response_reader B (DaemonResponse_msg_type m) (cur pre (response_fields m @ r))
     = (Ok (Some m), cur (pre @ response_fields m) r)"
  by (cases m) (simp_all add: response_reader_def rbind_def rpure_def decode_connections_wire)

lemma response_decode_wire:
  assumes "response_ok m"
  shows "DaemonResponseDecoder_decode B (response_wire m) = Some (Ok (Some m), [])"
  unfolding response_decoder_reader
  by (rule run_reader_value)
     (simp add: rbind_def response_wire_def response_reader_wire [OF assms, where r = "[]", simplified])

end

text \<open>Both directions are stream codecs.\<close>

sublocale bytes_crate \<subseteq> request: stream_codec "DaemonRequestDecoder_decode B" request_wire request_ok "\<lambda>m. m"
proof (intro stream_codec.intro frame_decoderI stream_codec_axioms.intro)
  show "framed_at (DaemonRequestDecoder_decode B) src" for src
    unfolding request_decoder_reader by (rule run_reader_framed) simp
qed (rule request_decode_wire)

sublocale bytes_crate \<subseteq> response: stream_codec "DaemonResponseDecoder_decode B" response_wire response_ok "\<lambda>m. m"
proof (intro stream_codec.intro frame_decoderI stream_codec_axioms.intro)
  show "framed_at (DaemonResponseDecoder_decode B) src" for src
    unfolding response_decoder_reader by (rule run_reader_framed) simp
qed (rule response_decode_wire)

section \<open>Errors of the encoders, and lists that are too long\<close>

text \<open>The strings of a message, in the order they are written.\<close>

fun request_strings :: "DaemonRequest \<Rightarrow> rstring list" where
  "request_strings (ReqAdd name _ _) = [name]"
| "request_strings (ReqRemove name) = [name]"
| "request_strings ReqList = []"
| "request_strings (ReqReset name) = [name]"

fun response_strings :: "DaemonResponse \<Rightarrow> rstring list" where
  "response_strings (AddOk path) = [path]"
| "response_strings RemoveOk = []"
| "response_strings (RespList cs) = concat (map (\<lambda>c. [ci_name c, ci_pts_path c]) cs)"
| "response_strings ResetOk = []"
| "response_strings (RespError msg) = [msg]"

context bytes_crate
begin

lemmas request_receive = request.receive_encoded
lemmas response_receive = response.receive_encoded
lemmas response_dec_prefix = response.dec_strict_prefix
lemmas request_dec_prefix = request.dec_strict_prefix
lemmas request_dec_enc = request.dec_enc_append
lemmas response_dec_enc = response.dec_enc_append
lemmas request_frame = request.frame_decoder_axioms
lemmas response_frame = response.frame_decoder_axioms

lemma encode_connections_result:
  "fst (encode_connections B cs dst) =
     (if list_all (\<lambda>c. length (ci_name c) \<le> 255 \<and> length (ci_pts_path c) \<le> 255) cs
      then Ok () else Err (IoError InvalidInput ''string too long''))"
proof (induction cs arbitrary: dst)
  case (Cons c cs)
  show ?case
    by (cases "length (ci_name c) \<le> 255"; cases "length (ci_pts_path c) \<le> 255") (simp_all add: Cons.IH)
qed simp

lemma response_list_wire:
  assumes "list_all info_ok cs"
  shows "DaemonResponseDecoder_decode B (response_wire (RespList cs)) =
    Some (Ok (Some (RespList (take (length cs mod 65536) cs))),
          concat (map info_wire (drop (length cs mod 65536) cs)))"
proof -
  let ?n = "length cs mod 65536" and ?w = "\<lambda>cs. concat (map info_wire cs)"
  let ?pre = "3 # be16 (of_nat (length cs))"
  have n: "unat (of_nat (length cs) :: u16) = ?n" by (simp add: unat_of_nat)
  have split: "?w cs = ?w (take ?n cs) @ ?w (drop ?n cs)"
    by (metis append_take_drop_id concat_append map_append)
  have len: "length (take ?n cs) = ?n" by simp
  have "list_all info_ok (take ?n cs)"
    using assms by (auto simp: list_all_iff dest: in_set_takeD)
  from decode_connections_wire [OF this, of "[]" ?pre "?w (drop ?n cs)"]
  have "decode_connections B ?n [] (cur ?pre (?w cs))
     = (Ok (Some (take ?n cs)), cur (?pre @ ?w (take ?n cs)) (?w (drop ?n cs)))"
    by (simp only: len split [symmetric]) simp
  then have "rbind (rtry (try_get_u8 B)) (response_reader B) (cur [] (response_wire (RespList cs)))
     = (Ok (Some (RespList (take ?n cs))), cur (?pre @ ?w (take ?n cs)) (?w (drop ?n cs)))"
    by (simp add: response_wire_def rbind_def rpure_def response_reader_def n)
  then show ?thesis
    unfolding response_decoder_reader run_reader_def Cursor_new_cur
    by (simp add: response_wire_def split)
qed

end

text \<open>A response is encoded without error exactly when every string in it has at most 255 bytes;
  the only error is \<open>InvalidInput\<close>, and the encoder never panics.\<close>

lemma response_encode_result:
  assumes "bytes_crate B"
  shows "fst (DaemonResponseEncoder_encode B m dst) =
     (if list_all (\<lambda>s. length s \<le> 255) (response_strings m) then Ok ()
      else Err (IoError InvalidInput ''string too long''))"
proof (cases m)
  case (RespList cs)
  have "list_all (\<lambda>s. length s \<le> 255) (response_strings m) =
      list_all (\<lambda>c. length (ci_name c) \<le> 255 \<and> length (ci_pts_path c) \<le> 255) cs"
    using RespList by (auto simp: list_all_iff)
  with RespList bytes_crate.encode_connections_result [OF assms] show ?thesis
    by (simp add: DaemonResponseEncoder_encode_def)
qed (auto simp: DaemonResponseEncoder_encode_def bytes_crate.encode_str_ok [OF assms]
      bytes_crate.encode_str_too_long [OF assms] not_le)

section \<open>What the decoders yield\<close>

context bytes_crate
begin

lemma yields_slice: "yields (rtry (try_copy_to_slice B n)) (\<lambda>bs. length bs = n)"
  by (auto simp: yields_def rtry_def try_copy_to_slice split: option.splits if_splits)

lemma yields_str: "yields (decode_str B) str_ok"
  unfolding decode_str_reader
  by (rule yields_rtry, rule yields_rbind [OF yields_slice]) (simp add: str_ok_def)

lemma yields_request: "yields (request_reader B k) request_ok"
  unfolding request_reader_def by (auto intro!: yields_rtry yields_rbind [OF yields_str])

lemma yields_info: "yields (info_reader B) info_ok"
  unfolding info_reader_def by (intro yields_rtry yields_rbind [OF yields_str]) (simp add: info_ok_def)

lemma yields_connections:
  "list_all info_ok cs \<Longrightarrow> yields (decode_connections B n cs) (\<lambda>v. list_all info_ok v \<and> length v = length cs + n)"
proof (induction n arbitrary: cs)
  case 0
  then show ?case by (simp add: yields_def)
next
  case (Suc n)
  have "yields (decode_connections B n (cs @ [c])) (\<lambda>v. list_all info_ok v \<and> length v = length cs + Suc n)" if "info_ok c" for c
    using Suc.IH [of "cs @ [c]"] Suc.prems that by simp
  then show ?case unfolding decode_connections_reader by (rule yields_rbind [OF yields_info])
qed

lemma yields_response: "yields (response_reader B k) response_ok"
proof -
  have "yields (rbind (decode_connections B (unat count) []) (\<lambda>cs. rpure (RespList cs))) response_ok" for count :: u16
    using unsigned_less [of count, where 'a = nat]
    by (intro yields_rbind [OF yields_connections]) simp_all
  then show ?thesis
    unfolding response_reader_def by (auto intro!: yields_rtry yields_rbind [OF yields_str])
qed

lemma decoded_request_ok: "DaemonRequestDecoder_decode B src = Some (Ok (Some m), r) \<Longrightarrow> request_ok m"
  unfolding request_decoder_reader by (erule run_reader_yields) (rule yields_rtry [OF yields_request])

lemma decoded_response_ok: "DaemonResponseDecoder_decode B src = Some (Ok (Some m), r) \<Longrightarrow> response_ok m"
  unfolding response_decoder_reader by (erule run_reader_yields) (rule yields_rtry [OF yields_response])

end

section \<open>Properties\<close>

text \<open>Every request whose name is UTF-8 of at most 255 bytes is encoded without error, and decoding
  what was written gives the same request and leaves whatever follows.\<close>

lemma request_roundtrip:
  assumes "bytes_crate B" and "request_ok m"
  shows "\<exists>w. DaemonRequestEncoder_encode B m dst = (Ok (), dst @ w) \<and>
     DaemonRequestDecoder_decode B (w @ extra) = Some (Ok (Some m), extra)"
  using bytes_crate.request_encode_wire [OF assms] bytes_crate.request_dec_enc [OF assms] by blast

text \<open>The daemon's reader gets exactly the requests a client wrote, in order, however the socket
  cuts the bytes into chunks; a request that is not complete is waited for.\<close>

lemma request_stream_chunks:
  assumes "bytes_crate B" and "list_all request_ok ms"
    and "request_ok m" and "strict_prefix p (request_wire m)"
    and "concat chunks = concat (map request_wire ms) @ p"
  shows "receive (DaemonRequestDecoder_decode B) [] chunks = (ms, Waiting p)"
proof -
  have "DaemonRequestDecoder_decode B [] = Some (Ok None, [])"
    by (rule bytes_crate.request_dec_prefix [OF assms(1,3)]) (simp add: strict_prefix_def request_wire_def)
  from bytes_crate.request_receive [OF assms(1,2) bytes_crate.request_dec_prefix [OF assms(1,3,4)] this assms(5)]
  show ?thesis by simp
qed

text \<open>A client that decodes a response gets the response the daemon encoded, with the bytes that
  follow left in place; a list is complete as long as it has at most 65535 connections.\<close>

lemma response_roundtrip:
  assumes "bytes_crate B" and "response_ok m"
  shows "\<exists>w. DaemonResponseEncoder_encode B m dst = (Ok (), dst @ w) \<and>
     DaemonResponseDecoder_decode B (w @ extra) = Some (Ok (Some m), extra)"
  using bytes_crate.response_encode_wire [OF assms] bytes_crate.response_dec_enc [OF assms] by blast

text \<open>C39. The count of a list response is the number of connections modulo 65536: the client sees the
  first so many entries, and the bytes of all the others stay in its buffer as if they were the next
  response.\<close>

theorem response_list_count_wraps:
  assumes "bytes_crate B" and "list_all info_ok cs"
  shows "\<exists>w. DaemonResponseEncoder_encode B (RespList cs) dst = (Ok (), dst @ w) \<and>
     DaemonResponseDecoder_decode B w =
       Some (Ok (Some (RespList (take (length cs mod 65536) cs))),
             concat (map info_wire (drop (length cs mod 65536) cs)))"
  using bytes_crate.response_list_wire [OF assms] bytes_crate.encode_connections_wire [OF assms]
    bytes_crate.put_u8 [OF assms(1)] bytes_crate.put_u16 [OF assms(1)]
  by (auto simp: DaemonResponseEncoder_encode_def response_wire_def)

theorem response_list_count_wraps_witness:
  "\<exists>w. DaemonResponseEncoder_encode bytes_ref (RespList (replicate 65536 \<lparr>ci_name = [], ci_addr = 1,
        ci_port = 2, ci_pts_path = [], ci_connected = True\<rparr>)) [] = (Ok (), [] @ w) \<and>
     (\<exists>left. left \<noteq> [] \<and> DaemonResponseDecoder_decode bytes_ref w = Some (Ok (Some (RespList [])), left))"
proof -
  let ?c = "\<lparr>ci_name = [], ci_addr = 1, ci_port = 2, ci_pts_path = [], ci_connected = True\<rparr>"
  have "list_all info_ok (replicate 65536 ?c)" by (simp add: list_all_iff info_ok_def str_ok_def)
  moreover have "concat (map info_wire (replicate 65536 ?c)) \<noteq> []" by (simp add: info_wire_def)
  ultimately show ?thesis
    using response_list_count_wraps [OF ref.bytes_crate_axioms, of "replicate 65536 ?c" "[]"] by fastforce
qed

text \<open>The request decoder is total on arbitrary bytes: it never panics, keeps the buffer unless it
  returns a request, and then removes at least one byte.\<close>

lemma request_decode_total:
  assumes "bytes_crate B"
  shows "DaemonRequestDecoder_decode B src = Some (Ok None, src)
     \<or> (\<exists>e. DaemonRequestDecoder_decode B src = Some (Err e, src))
     \<or> (\<exists>m r. DaemonRequestDecoder_decode B src = Some (Ok (Some m), r) \<and> strict_suffix r src)"
proof -
  have "framed_at (DaemonRequestDecoder_decode B) src"
    unfolding request_decoder_reader
    by (rule bytes_crate.run_reader_framed [OF assms]) (rule bytes_crate.request_reader_framed [OF assms])
  then show ?thesis
    by (cases rule: framed_at_cases) (auto simp: strict_suffix_def suffix_def)
qed

end
