(* ===== verification/Connection_Task.thy ===== *)
theory Connection_Task
  imports Tcp_Bridge Async_Pty Ctl_Codec
begin

text \<open>
  A connection and its background task (\<open>daemon/src/connection.rs\<close>, \<open>daemon/src/event.rs\<close>).

  The task is a loop around \<open>step\<close>, which does the work of the current state. A step is given, as its
  input, which branch of \<open>select!\<close> became ready and what the awaits inside that branch returned
  (\<open>connected_in\<close>, \<open>wait_sel\<close>, \<open>resync_sel\<close>); it returns the task and what it has done
  to the outside as a list of \<open>effect\<close>s: messages handed to the TCP stream, bytes written to the
  terminal, answers on the oneshot channels, notices to the daemon. A oneshot sender is a number.
  \<open>Suspended\<close> means that the input ends before the step does, \<open>Panicked\<close> is a Rust panic.

  What is proved of the task is in the theory \<open>Connection_Inv\<close>.
\<close>

section \<open>Requests, events, states\<close>

datatype DeviceControlError = Unavailable

type_synonym sender = nat
type_synonym ctl_reply = "(DeviceControlResponse, DeviceControlError) Result"

datatype ConnectionTaskRequest =
    HardwareControl DeviceControlRequest sender
  | Status sender

datatype DaemonEvent =
    CliCommand DaemonRequest sender
  | ConnectionClosed rstring

datatype ConnState =
    Connected
  | Reconnecting Duration "DeviceMessage option" \<comment> \<open>backoff, pending\<close>
  | Resyncing DeviceMessage
  | ShuttingDown

record 'f ConnectionTask =
  ct_name :: rstring
  ct_master :: AsyncPty
  ct_tcp :: "'f TcpBridge"
  ct_state :: ConnState
  ct_pty_buf :: "u8 list"
  ct_pending_hw_ctl :: "sender option"

record Connection =
  cn_name :: rstring
  cn_addr :: u32
  cn_port :: u16
  cn_slave_path :: rstring
  cn_shutdown_tx :: sender
  cn_ctl_req_tx :: nat \<comment> \<open>identity of the channel to the task\<close>

datatype effect =
    Tcp tcp_io
  | PtyWrite "u8 list"
  | ReplyCtl sender ctl_reply
  | ReplyStatus sender bool
  | Notify DaemonEvent

definition INITIAL_RECONNECT_BACKOFF :: Duration where
  "INITIAL_RECONNECT_BACKOFF = 100"

definition MAX_RECONNECT_BACKOFF :: Duration where
  "MAX_RECONNECT_BACKOFF = 5000"

section \<open>The handle of a connection\<close>

text \<open>The channels \<open>shutdown\<close> and \<open>ctl_req\<close> are given by their identities.\<close>

definition build_and_spawn ::
  "rstring \<Rightarrow> u32 \<Rightarrow> u16 \<Rightarrow> AsyncPty \<Rightarrow> rstring \<Rightarrow> sender \<Rightarrow> nat \<Rightarrow> Connection \<times> 'f ConnectionTask" where
  "build_and_spawn name addr port master slave_path shutdown_ch ctl_ch =
     (let tcp = TcpBridge_new addr port;
          conn = \<lparr>cn_name = name, cn_addr = addr, cn_port = port, cn_slave_path = slave_path,
                  cn_shutdown_tx = shutdown_ch, cn_ctl_req_tx = ctl_ch\<rparr>;
          task = \<lparr>ct_name = name, ct_master = master, ct_tcp = tcp,
                  ct_state = Reconnecting INITIAL_RECONNECT_BACKOFF None,
                  ct_pty_buf = replicate MAX_MESSAGE_LEN 0, ct_pending_hw_ctl = None\<rparr>
      in (conn, task))"

text \<open>
  What the handle does to the channels: it puts a request into the channel of the task, or sends the
  shutdown signal. In the two requests \<open>tx\<close> is the new oneshot channel, \<open>sent\<close> the outcome of
  \<open>ctl_req_tx.send(..).await\<close> and \<open>answer\<close> that of \<open>rx.await\<close>; an error of either means that the task is
  gone.
\<close>

datatype handle_effect =
    Enqueue nat ConnectionTaskRequest
  | SignalShutdown sender

type_synonym 'a request_env = "sender \<times> (unit, unit) Result \<times> ('a, unit) Result"

definition Connection_send_hardware_ctl ::
  "Connection \<Rightarrow> DeviceControlRequest \<Rightarrow> ctl_reply request_env \<Rightarrow> ctl_reply option \<times> handle_effect list" where
  "Connection_send_hardware_ctl self ctl env =
     (case env of (tx, sent, answer) \<Rightarrow>
        (case sent of
           Err _ \<Rightarrow> (None, [])
         | Ok _ \<Rightarrow>
             (case answer of Ok r \<Rightarrow> Some r | Err _ \<Rightarrow> None, [Enqueue (cn_ctl_req_tx self) (HardwareControl ctl tx)])))"

definition get_status :: "Connection \<Rightarrow> bool request_env \<Rightarrow> bool \<times> handle_effect list" where
  "get_status self env =
     (case env of (tx, sent, answer) \<Rightarrow>
        (case sent of
           Err _ \<Rightarrow> (False, [])
         | Ok _ \<Rightarrow>
             (case answer of Ok b \<Rightarrow> b | Err _ \<Rightarrow> False, [Enqueue (cn_ctl_req_tx self) (Status tx)])))"

definition Connection_shutdown :: "Connection \<Rightarrow> handle_effect list" where
  "Connection_shutdown self = [SignalShutdown (cn_shutdown_tx self)]"

section \<open>The steps of the task\<close>

definition fail_pending_ctl :: "'f ConnectionTask \<Rightarrow> 'f ConnectionTask \<times> effect list" where
  "fail_pending_ctl self =
     (case ct_pending_hw_ctl self of
        Some tx \<Rightarrow> (self\<lparr>ct_pending_hw_ctl := None\<rparr>, [ReplyCtl tx (Err Unavailable)])
      | None \<Rightarrow> (self, []))"

definition next_backoff :: "Duration \<Rightarrow> Duration exec" where
  "next_backoff backoff =
     (case Duration_mul backoff 2 of
        None \<Rightarrow> panic
      | Some d \<Rightarrow> Some (min d MAX_RECONNECT_BACKOFF))"

definition should_close :: "'f ConnectionTask \<Rightarrow> bool" where
  "should_close self = (case ct_state self of ShuttingDown \<Rightarrow> True | _ \<Rightarrow> False)"

definition config_message :: "TermiosChange \<Rightarrow> DeviceMessage" where
  "config_message c = Config (tc_baudrate c) (tc_data_bits c) (tc_stop_bits c) (tc_parity c) (tc_hw_flow_ctl c)"

type_synonym 'f send_out = "(unit, io_error) Result \<times> 'f"

text \<open>
  The branches of \<open>step_connected\<close>: the shutdown signal; the terminal was read (outcomes of the system
  calls, and of the send that follows); the device sent something (and outcome of \<open>write_all\<close>, which
  may fail after a part of the bytes was written); a control request arrived (and outcome of the send
  that follows).
\<close>

type_synonym write_out = "(unit, nat \<times> io_error) Result"

datatype 'f connected_in =
    CShutdown
  | CPty "pty_iter list" "'f send_out"
  | CTcp "(DeviceMessage, io_error) Result option \<times> 'f" write_out
  | CCtl "ConnectionTaskRequest option" "'f send_out"

type_synonym 'f step_result = "(ConnState option \<times> 'f ConnectionTask \<times> effect list) outcome"

text \<open>Both reads of the terminal that produce a message send it and, if that fails, keep it for later.\<close>

definition send_or_reconnect :: "'f ConnectionTask \<Rightarrow> DeviceMessage \<Rightarrow> 'f send_out \<Rightarrow> 'f step_result" where
  "send_or_reconnect self msg out =
     (case TcpBridge_send (ct_tcp self) msg out of
        (BridgeOk _, tcp, io) \<Rightarrow> Done (None, self\<lparr>ct_tcp := tcp\<rparr>, map Tcp io)
      | (BridgeDisconnected e, tcp, io) \<Rightarrow>
          (case fail_pending_ctl (self\<lparr>ct_tcp := tcp\<rparr>) of
             (self', replies) \<Rightarrow>
               Done (Some (Reconnecting INITIAL_RECONNECT_BACKOFF (Some msg)), self', map Tcp io @ replies)))"

definition step_connected_pty ::
  "termios_api \<Rightarrow> 'f ConnectionTask \<Rightarrow> pty_iter list \<Rightarrow> 'f send_out \<Rightarrow> 'f step_result" where
  "step_connected_pty A self0 its out =
     (case AsyncPty_read A (ct_master self0) (ct_pty_buf self0) its of
        None \<Rightarrow> Suspended
      | Some (res, master, buf, _) \<Rightarrow>
          (let self = self0\<lparr>ct_master := master, ct_pty_buf := buf\<rparr>
           in case res of
                Ok (PtyTermiosChange c) \<Rightarrow> send_or_reconnect self (config_message c) out
              | Ok (PtyData n) \<Rightarrow>
                  (case slice_to (ct_pty_buf self) n of
                     None \<Rightarrow> Panicked
                   | Some bs \<Rightarrow>
                       (case DeviceMessage_from bs of
                          None \<Rightarrow> Panicked
                        | Some msg \<Rightarrow> send_or_reconnect self msg out))
              | Ok (PtyControlMessage c) \<Rightarrow> Done (None, self, [])
              | Err e \<Rightarrow> Done (Some ShuttingDown, self, [])))"

definition step_connected_tcp ::
  "'f ConnectionTask \<Rightarrow> (DeviceMessage, io_error) Result option \<times> 'f \<Rightarrow> write_out
     \<Rightarrow> 'f step_result" where
  "step_connected_tcp self0 got written =
     (case TcpBridge_next (ct_tcp self0) got of
        (BridgeOk msg, tcp) \<Rightarrow>
          (let self = self0\<lparr>ct_tcp := tcp\<rparr>
           in case msg of
                Data sz data \<Rightarrow>
                  (case slice_to data (unat sz) of
                     None \<Rightarrow> Panicked
                   | Some bs \<Rightarrow>
                       (case written of
                          Err (k, e) \<Rightarrow> Done (Some ShuttingDown, self, [PtyWrite (take k bs)])
                        | Ok _ \<Rightarrow> Done (None, self, [PtyWrite bs])))
              | ControlRes resp \<Rightarrow>
                  (case ct_pending_hw_ctl self of
                     Some tx \<Rightarrow> Done (None, self\<lparr>ct_pending_hw_ctl := None\<rparr>, [ReplyCtl tx (Ok resp)])
                   | None \<Rightarrow> Done (None, self, []))
              | _ \<Rightarrow> Done (None, self, []))
      | (BridgeDisconnected e, tcp) \<Rightarrow>
          (case fail_pending_ctl (self0\<lparr>ct_tcp := tcp\<rparr>) of
             (self', replies) \<Rightarrow> Done (Some (Reconnecting INITIAL_RECONNECT_BACKOFF None), self', replies)))"

definition step_connected_ctl ::
  "'f ConnectionTask \<Rightarrow> ConnectionTaskRequest option \<Rightarrow> 'f send_out \<Rightarrow> 'f step_result" where
  "step_connected_ctl self req out =
     (case req of
        Some (HardwareControl ctl tx) \<Rightarrow>
          if ct_pending_hw_ctl self \<noteq> None
          then Done (None, self, [ReplyCtl tx (Err Unavailable)])
          else (case TcpBridge_send (ct_tcp self) (ControlReq ctl) out of
                  (BridgeOk _, tcp, io) \<Rightarrow>
                    Done (None, self\<lparr>ct_tcp := tcp, ct_pending_hw_ctl := Some tx\<rparr>, map Tcp io)
                | (BridgeDisconnected e, tcp, io) \<Rightarrow>
                    Done (Some (Reconnecting INITIAL_RECONNECT_BACKOFF None), self\<lparr>ct_tcp := tcp\<rparr>,
                          map Tcp io @ [ReplyCtl tx (Err Unavailable)]))
      | Some (Status tx) \<Rightarrow> Done (None, self, [ReplyStatus tx True])
      | None \<Rightarrow> Done (Some ShuttingDown, self, []))"

definition step_connected :: "termios_api \<Rightarrow> 'f ConnectionTask \<Rightarrow> 'f connected_in \<Rightarrow> 'f step_result" where
  "step_connected A self i =
     (case i of
        CShutdown \<Rightarrow> Done (Some ShuttingDown, self, [])
      | CPty its out \<Rightarrow> step_connected_pty A self its out
      | CTcp got written \<Rightarrow> step_connected_tcp self got written
      | CCtl req out \<Rightarrow> step_connected_ctl self req out)"

text \<open>
  The loop of \<open>step_reconnecting\<close>: it answers requests until the sleep is over. \<open>True\<close> is the \<open>break\<close>,
  \<open>False\<close> the return with \<open>ShuttingDown\<close>.
\<close>

datatype wait_sel = WShutdown | WCtl "ConnectionTaskRequest option" | WSleepDone

fun reconnect_loop :: "wait_sel list \<Rightarrow> (bool \<times> effect list) outcome" where
  "reconnect_loop [] = Suspended"
| "reconnect_loop (WShutdown # _) = Done (False, [])"
| "reconnect_loop (WCtl None # _) = Done (False, [])"
| "reconnect_loop (WSleepDone # _) = Done (True, [])"
| "reconnect_loop (WCtl (Some (HardwareControl _ tx)) # sels) =
     (case reconnect_loop sels of
        Done (b, es) \<Rightarrow> Done (b, ReplyCtl tx (Err Unavailable) # es)
      | r \<Rightarrow> r)"
| "reconnect_loop (WCtl (Some (Status tx)) # sels) =
     (case reconnect_loop sels of
        Done (b, es) \<Rightarrow> Done (b, ReplyStatus tx False # es)
      | r \<Rightarrow> r)"

definition step_reconnecting ::
  "'f ConnectionTask \<Rightarrow> wait_sel list \<Rightarrow> 'f connect_env \<Rightarrow> 'f step_result" where
  "step_reconnecting self sels env =
     (case ct_state self of
        Reconnecting backoff pending \<Rightarrow>
          (case reconnect_loop sels of
             Suspended \<Rightarrow> Suspended
           | Panicked \<Rightarrow> Panicked
           | Done (False, es) \<Rightarrow> Done (Some ShuttingDown, self, es)
           | Done (True, es) \<Rightarrow>
               (case TcpBridge_try_connect (ct_tcp self) env of
                  (BridgeOk _, tcp) \<Rightarrow>
                    (case pending of
                       Some m \<Rightarrow> Done (Some (Resyncing m), self\<lparr>ct_tcp := tcp\<rparr>, es)
                     | None \<Rightarrow> Done (Some Connected, self\<lparr>ct_tcp := tcp\<rparr>, es))
                | (BridgeDisconnected e, tcp) \<Rightarrow>
                    (case next_backoff backoff of
                       None \<Rightarrow> Panicked
                     | Some d \<Rightarrow> Done (Some (Reconnecting d pending), self\<lparr>ct_tcp := tcp\<rparr>, es))))
      | _ \<Rightarrow> Panicked)"

text \<open>The loop of \<open>step_resyncing\<close>: it answers requests until the pinned send has an outcome.\<close>

datatype 'f resync_sel = RShutdown | RCtl "ConnectionTaskRequest option" | RSendDone "'f send_out"

fun resync_loop :: "'f resync_sel list \<Rightarrow> ('f send_out option \<times> effect list) outcome" where
  "resync_loop [] = Suspended"
| "resync_loop (RShutdown # _) = Done (None, [])"
| "resync_loop (RCtl None # _) = Done (None, [])"
| "resync_loop (RSendDone out # _) = Done (Some out, [])"
| "resync_loop (RCtl (Some (HardwareControl _ tx)) # sels) =
     (case resync_loop sels of
        Done (r, es) \<Rightarrow> Done (r, ReplyCtl tx (Err Unavailable) # es)
      | r \<Rightarrow> r)"
| "resync_loop (RCtl (Some (Status tx)) # sels) =
     (case resync_loop sels of
        Done (r, es) \<Rightarrow> Done (r, ReplyStatus tx False # es)
      | r \<Rightarrow> r)"

definition step_resyncing :: "'f ConnectionTask \<Rightarrow> 'f resync_sel list \<Rightarrow> 'f step_result" where
  "step_resyncing self sels =
     (case ct_state self of
        Resyncing pending \<Rightarrow>
          (case resync_loop sels of
             Suspended \<Rightarrow> Suspended
           | Panicked \<Rightarrow> Panicked
           | Done (None, es) \<Rightarrow> Done (Some ShuttingDown, self, es)
           | Done (Some out, es) \<Rightarrow>
               (case TcpBridge_send (ct_tcp self) pending out of
                  (BridgeOk _, tcp, io) \<Rightarrow> Done (Some Connected, self\<lparr>ct_tcp := tcp\<rparr>, es @ map Tcp io)
                | (BridgeDisconnected e, tcp, io) \<Rightarrow>
                    Done (Some (Reconnecting INITIAL_RECONNECT_BACKOFF (Some pending)), self\<lparr>ct_tcp := tcp\<rparr>,
                          es @ map Tcp io)))
      | _ \<Rightarrow> Panicked)"

text \<open>The input of a step belongs to a state; an input of another state cannot happen.\<close>

datatype 'f step_in =
    InConnected "'f connected_in"
  | InReconnecting "wait_sel list" "'f connect_env"
  | InResyncing "'f resync_sel list"

definition step :: "termios_api \<Rightarrow> 'f ConnectionTask \<Rightarrow> 'f step_in \<Rightarrow> ('f ConnectionTask \<times> effect list) outcome" where
  "step A self i =
     (let res = (case (ct_state self, i) of
            (Connected, InConnected c) \<Rightarrow> step_connected A self c
          | (Reconnecting _ _, InReconnecting sels env) \<Rightarrow> step_reconnecting self sels env
          | (Resyncing _, InResyncing sels) \<Rightarrow> step_resyncing self sels
          | (ShuttingDown, _) \<Rightarrow> Done (None, self, [])
          | _ \<Rightarrow> Suspended)
      in case res of
           Suspended \<Rightarrow> Suspended
         | Panicked \<Rightarrow> Panicked
         | Done (Some state', self', es) \<Rightarrow> Done (self'\<lparr>ct_state := state'\<rparr>, es)
         | Done (None, self', es) \<Rightarrow> Done (self', es))"

definition shutdown :: "'f ConnectionTask \<Rightarrow> 'f ConnectionTask \<times> effect list" where
  "shutdown self =
     (case fail_pending_ctl self of
        (self', replies) \<Rightarrow> (self', replies @ [Notify (ConnectionClosed (ct_name self'))]))"

fun conn_task :: "termios_api \<Rightarrow> 'f ConnectionTask \<Rightarrow> 'f step_in list \<Rightarrow> ('f ConnectionTask \<times> effect list) outcome" where
  "conn_task A task ins =
     (if should_close task then Done (shutdown task)
      else case ins of
             [] \<Rightarrow> Suspended
           | i # ins' \<Rightarrow>
               (case step A task i of
                  Suspended \<Rightarrow> Suspended
                | Panicked \<Rightarrow> Panicked
                | Done (task', es) \<Rightarrow>
                    (case conn_task A task' ins' of
                       Suspended \<Rightarrow> Suspended
                     | Panicked \<Rightarrow> Panicked
                     | Done (task'', es') \<Rightarrow> Done (task'', es @ es'))))"

lemmas step_parts_defs = step_connected_def step_connected_pty_def step_connected_tcp_def
  step_connected_ctl_def send_or_reconnect_def step_reconnecting_def step_resyncing_def step_def

declare step_parts_defs [task_defs]

end
