(* ===== verification/Daemon_State.thy ===== *)
theory Daemon_State
  imports Connection_Task "HOL-Library.Multiset"
begin

text \<open>
  The registry of connections (\<open>daemon/src/state.rs\<close>): a vector of handles, searched by name. The theory
  first translates the operations, then states what a registry promises its client, the request handler,
  as the locale \<open>conn_registry\<close>: a map from names to connections. The vector is one, as long as no name
  is added twice; the client lemmas (a whole sequence of guarded operations is the same sequence on the map)
  are proved once, in the locale.
\<close>

section \<open>Operations\<close>

record State =
  conns :: "Connection list"

definition State_default :: State where
  "State_default = \<lparr>conns = []\<rparr>"

definition State_add :: "State \<Rightarrow> Connection \<Rightarrow> State" where
  "State_add self conn = self\<lparr>conns := conns self @ [conn]\<rparr>"

text \<open>\<open>None\<close> would be the panic of \<open>swap_remove\<close>.\<close>

definition State_remove :: "State \<Rightarrow> rstring \<Rightarrow> (bool \<times> State \<times> handle_effect list) exec" where
  "State_remove self name =
     (case position_of (\<lambda>c. cn_name c = name) (conns self) of
        None \<Rightarrow> Some (False, self, [])
      | Some pos \<Rightarrow>
          (case swap_remove (conns self) pos of
             None \<Rightarrow> panic
           | Some (conn, others) \<Rightarrow> Some (True, self\<lparr>conns := others\<rparr>, Connection_shutdown conn)))"

text \<open>The loop of \<open>list\<close>; the outcomes of \<open>get_status\<close> come one by one, and the list waits while there is none.\<close>

fun list_loop ::
  "Connection list \<Rightarrow> bool request_env list \<Rightarrow> (ConnectionInfo list \<times> handle_effect list) option" where
  "list_loop [] envs = Some ([], [])"
| "list_loop (c # cs) [] = None"
| "list_loop (c # cs) (env # envs) =
     (case get_status c env of
        (b, es) \<Rightarrow>
          map_option (\<lambda>(l, es'). (\<lparr>ci_name = cn_name c, ci_addr = cn_addr c, ci_port = cn_port c,
                                    ci_pts_path = cn_slave_path c, ci_connected = b\<rparr> # l, es @ es'))
            (list_loop cs envs))"

definition State_list :: "State \<Rightarrow> bool request_env list \<Rightarrow> (ConnectionInfo list \<times> handle_effect list) option" where
  "State_list self envs = list_loop (conns self) envs"

definition State_send_hardware_ctl ::
  "State \<Rightarrow> rstring \<Rightarrow> DeviceControlRequest \<Rightarrow> ctl_reply request_env \<Rightarrow> ctl_reply option \<times> handle_effect list" where
  "State_send_hardware_ctl self conn_name ctl env =
     (case find (\<lambda>c. cn_name c = conn_name) (conns self) of
        None \<Rightarrow> (None, [])
      | Some conn \<Rightarrow> Connection_send_hardware_ctl conn ctl env)"

definition State_exists :: "State \<Rightarrow> rstring \<Rightarrow> bool" where
  "State_exists self name = list_ex (\<lambda>c. cn_name c = name) (conns self)"

section \<open>Invariant and abstraction\<close>

definition State_inv :: "State \<Rightarrow> bool" where
  "State_inv s \<longleftrightarrow> distinct (map cn_name (conns s))"

definition State_map :: "State \<Rightarrow> rstring \<Rightarrow> Connection option" where
  "State_map s = map_of (map (\<lambda>c. (cn_name c, c)) (conns s))"

text \<open>The two operations in the form the interface has: what is left, and whether something was removed.\<close>

definition removed :: "State \<Rightarrow> rstring \<Rightarrow> bool \<times> State" where
  "removed s name = (case State_remove s name of Some (b, s', _) \<Rightarrow> (b, s') | None \<Rightarrow> (False, s))"

section \<open>The interface\<close>

text \<open>An operation with the guard of the handler, on the vector and on a map.\<close>

datatype registry_op = AddNew Connection | RemoveName rstring

definition State_op :: "State \<Rightarrow> registry_op \<Rightarrow> State" where
  "State_op s a = (case a of AddNew c \<Rightarrow> if State_exists s (cn_name c) then s else State_add s c
                           | RemoveName n \<Rightarrow> snd (removed s n))"

definition map_op :: "(rstring \<Rightarrow> Connection option) \<Rightarrow> registry_op \<Rightarrow> rstring \<Rightarrow> Connection option" where
  "map_op m a = (case a of AddNew c \<Rightarrow> if m (cn_name c) \<noteq> None then m else m(cn_name c \<mapsto> c)
                         | RemoveName n \<Rightarrow> m(n := None))"

locale conn_registry =
  fixes empty :: 's
    and add :: "'s \<Rightarrow> Connection \<Rightarrow> 's"
    and remove :: "'s \<Rightarrow> rstring \<Rightarrow> bool \<times> 's"
    and exists :: "'s \<Rightarrow> rstring \<Rightarrow> bool"
    and inv :: "'s \<Rightarrow> bool"
    and abs :: "'s \<Rightarrow> rstring \<Rightarrow> Connection option"
  assumes empty_inv: "inv empty"
    and empty_abs: "abs empty = Map.empty"
    and add_inv: "inv s \<Longrightarrow> abs s (cn_name c) = None \<Longrightarrow> inv (add s c)"
    and add_abs: "inv s \<Longrightarrow> abs s (cn_name c) = None \<Longrightarrow> abs (add s c) = (abs s)(cn_name c \<mapsto> c)"
    and remove_inv: "inv s \<Longrightarrow> inv (snd (remove s n))"
    and remove_abs: "inv s \<Longrightarrow> abs (snd (remove s n)) = (abs s)(n := None)"
    and remove_result: "inv s \<Longrightarrow> fst (remove s n) \<longleftrightarrow> abs s n \<noteq> None"
    and exists_abs: "inv s \<Longrightarrow> exists s n \<longleftrightarrow> abs s n \<noteq> None"
    and abs_name: "inv s \<Longrightarrow> abs s n = Some c \<Longrightarrow> cn_name c = n"
begin

definition apply_op :: "'s \<Rightarrow> registry_op \<Rightarrow> 's" where
  "apply_op s a = (case a of AddNew c \<Rightarrow> if exists s (cn_name c) then s else add s c
                           | RemoveName n \<Rightarrow> snd (remove s n))"

lemma apply_op_correct: "inv s \<Longrightarrow> inv (apply_op s a) \<and> abs (apply_op s a) = map_op (abs s) a"
  by (cases a) (auto simp: apply_op_def map_op_def exists_abs add_inv add_abs remove_inv remove_abs)

lemma ops_inv: "inv s \<Longrightarrow> inv (foldl apply_op s as)"
  by (induction "as" arbitrary: s) (simp_all add: apply_op_correct)

lemma ops_refine: "inv s \<Longrightarrow> abs (foldl apply_op s as) = foldl map_op (abs s) as"
  by (induction "as" arbitrary: s) (simp_all add: apply_op_correct)

lemma ops_exists: "exists (foldl apply_op empty as) n \<longleftrightarrow> foldl map_op Map.empty as n \<noteq> None"
  by (simp add: exists_abs ops_inv ops_refine empty_inv empty_abs)

lemma add_then_remove:
  assumes "inv s" and "\<not> exists s (cn_name c)"
  shows "fst (remove (add s c) (cn_name c)) \<and> abs (snd (remove (add s c) (cn_name c))) = abs s"
  using assms by (auto simp: exists_abs add_inv add_abs remove_abs remove_result)

lemma remove_twice: "inv s \<Longrightarrow> \<not> fst (remove (snd (remove s n)) n)"
  by (simp add: remove_inv remove_abs remove_result)

end

section \<open>The vector is a registry\<close>

lemma option_eqI: "(\<And>d. x = Some d \<longleftrightarrow> y = Some d) \<Longrightarrow> x = y"
  by (cases x; cases y) auto

lemma mset_swap_remove:
  assumes "i < length xs"
  shows "mset (butlast (xs[i := last xs])) = mset xs - {#xs ! i#}"
proof -
  from assms have ne: "xs \<noteq> []" by auto
  let ?ys = "xs[i := last xs]"
  have "?ys \<noteq> []" using ne by simp
  moreover have "last ?ys = last xs"
    using assms ne by (simp add: last_conv_nth nth_list_update)
  ultimately have "mset ?ys = add_mset (last xs) (mset (butlast ?ys))"
    by (metis append_butlast_last_id mset.simps(2) mset_append mset.simps(1) add_mset_add_single)
  moreover have "mset ?ys = add_mset (last xs) (mset xs - {#xs ! i#})"
    using assms by (simp add: mset_update)
  ultimately show ?thesis by simp
qed

lemma State_remove_total: "\<exists>b s' es. State_remove s n = Some (b, s', es)"
  by (auto simp: State_remove_def swap_remove_def dest: position_of_eq_Some split: option.split)

lemma State_remove_False:
  assumes "State_remove s n = Some (False, s', es)"
  shows "s' = s \<and> es = [] \<and> (\<forall>c \<in> set (conns s). cn_name c \<noteq> n)"
  using assms
  by (auto simp: State_remove_def swap_remove_def position_of_None_iff split: option.splits if_splits)

lemma State_remove_True:
  assumes "State_remove s n = Some (True, s', es)"
  obtains c where "cn_name c = n" "mset (conns s) = mset (c # conns s')" "es = [SignalShutdown (cn_shutdown_tx c)]"
proof -
  from assms obtain i where i: "position_of (\<lambda>c. cn_name c = n) (conns s) = Some i"
    by (auto simp: State_remove_def split: option.splits)
  note pos = position_of_eq_Some [OF i]
  from pos assms i have s': "conns s' = butlast ((conns s)[i := last (conns s)])"
    and es: "es = [SignalShutdown (cn_shutdown_tx (conns s ! i))]"
    by (auto simp: State_remove_def swap_remove_def Connection_shutdown_def)
  from pos have "mset (conns s) = mset (conns s ! i # conns s')"
    by (simp add: s' mset_swap_remove)
  with that [of "conns s ! i"] pos es show ?thesis by simp
qed

lemma State_map_Some_iff: "State_inv s \<Longrightarrow> State_map s n = Some c \<longleftrightarrow> c \<in> set (conns s) \<and> cn_name c = n"
  by (auto simp: State_map_def State_inv_def map_of_eq_Some_iff comp_def)

lemma State_map_None_iff: "State_map s n = None \<longleftrightarrow> (\<forall>c \<in> set (conns s). cn_name c \<noteq> n)"
  by (auto simp: State_map_def map_of_eq_None_iff image_image)

lemma State_map_find: "State_map s n = find (\<lambda>c. cn_name c = n) (conns s)"
proof -
  have "map_of (map (\<lambda>c. (cn_name c, c)) cs) n = find (\<lambda>c. cn_name c = n) cs" for cs
    by (induction cs) auto
  then show ?thesis by (simp add: State_map_def)
qed

lemma removed_inv:
  assumes "State_inv s"
  shows "State_inv (snd (removed s n)) \<and> State_map (snd (removed s n)) = (State_map s)(n := None) \<and>
     (fst (removed s n) \<longleftrightarrow> State_map s n \<noteq> None)"
proof -
  obtain b s' es where r: "State_remove s n = Some (b, s', es)" using State_remove_total by blast
  show ?thesis
  proof (cases b)
    case False
    with r State_remove_False [of s n s' es] assms show ?thesis
      by (auto simp: removed_def State_map_None_iff fun_upd_idem_iff)
  next
    case True
    with r obtain c where c: "cn_name c = n" and m: "mset (conns s) = mset (c # conns s')"
      using State_remove_True [of s n s' es] by auto
    from m have set: "set (conns s) = insert c (set (conns s'))" by (metis list.simps(15) set_mset_mset)
    from m have "mset (map cn_name (conns s)) = mset (map cn_name (c # conns s'))" by (simp only: mset_map)
    then have "distinct (map cn_name (c # conns s'))"
      using assms mset_eq_imp_distinct_iff State_inv_def by blast
    with c have d: "distinct (map cn_name (conns s'))" "\<forall>d \<in> set (conns s'). cn_name d \<noteq> n" by (auto simp: image_iff)
    then have inv: "State_inv s'" by (simp add: State_inv_def)
    have "State_map s' = (State_map s)(n := None)"
    proof
      fix k
      show "State_map s' k = ((State_map s)(n := None)) k"
      proof (rule option_eqI)
        fix d
        show "State_map s' k = Some d \<longleftrightarrow> ((State_map s)(n := None)) k = Some d"
          using set d(2) c inv assms by (auto simp: State_map_Some_iff)
      qed
    qed
    moreover have "State_map s n \<noteq> None" using set c by (auto simp: State_map_None_iff)
    ultimately show ?thesis using r True inv by (simp add: removed_def)
  qed
qed

interpretation vec: conn_registry State_default State_add removed State_exists State_inv State_map
proof
  show "State_inv State_default" "State_map State_default = Map.empty"
    by (simp_all add: State_inv_def State_map_def State_default_def)
  fix s c n
  assume inv: "State_inv s"
  show "State_inv (snd (removed s n))" "State_map (snd (removed s n)) = (State_map s)(n := None)"
    "fst (removed s n) \<longleftrightarrow> State_map s n \<noteq> None"
    using removed_inv [OF inv] by simp_all
  show "State_exists s n \<longleftrightarrow> State_map s n \<noteq> None"
    by (auto simp: State_exists_def list_ex_iff State_map_None_iff)
  show "State_map s n = Some c \<Longrightarrow> cn_name c = n" by (simp add: State_map_Some_iff inv)
  assume new: "State_map s (cn_name c) = None"
  then show inv': "State_inv (State_add s c)"
    using inv by (auto simp: State_map_None_iff State_inv_def State_add_def)
  show "State_map (State_add s c) = (State_map s)(cn_name c \<mapsto> c)"
  proof
    fix k
    show "State_map (State_add s c) k = ((State_map s)(cn_name c \<mapsto> c)) k"
      using new by (auto simp: State_map_def State_add_def map_add_def split: option.split)
  qed
qed

text \<open>The loop of \<open>list\<close> needs one outcome per connection; what it lists is the connections, in order.\<close>

lemma list_loop_total:
  "length cs \<le> length envs \<Longrightarrow> \<exists>l es. list_loop cs envs = Some (l, es)"
proof (induction cs envs rule: list_loop.induct)
  case (3 c cs env envs)
  then show ?case by (cases "get_status c env") auto
qed simp_all

lemma list_loop_lists:
  "list_loop cs envs = Some (l, es) \<Longrightarrow>
     map (\<lambda>i. (ci_name i, ci_addr i, ci_port i, ci_pts_path i)) l
       = map (\<lambda>c. (cn_name c, cn_addr c, cn_port c, cn_slave_path c)) cs \<and>
     map ci_connected l = map2 (\<lambda>c env. fst (get_status c env)) cs envs"
  by (induction cs envs arbitrary: l es rule: list_loop.induct) (auto split: prod.splits)

lemma list_loop_requests:
  "list_loop cs envs = Some (l, es) \<Longrightarrow>
     set es \<subseteq> {Enqueue (cn_ctl_req_tx c) (Status tx) | c tx. c \<in> set cs}"
  by (induction cs envs arbitrary: l es rule: list_loop.induct)
     (fastforce simp: get_status_def split: prod.splits Result.splits)+

lemma apply_op_eq: "vec.apply_op = State_op"
  by (intro ext) (simp add: vec.apply_op_def State_op_def)

section \<open>Properties\<close>

text \<open>C23. The vector of connections refines a map by name: any sequence of guarded additions (only when
  \<open>exists\<close> says no) and removals leaves the names distinct and is, seen as a map, the same sequence of
  map updates, so that \<open>exists\<close> answers membership in that map.\<close>

theorem state_refines_map:
  "State_inv (foldl State_op State_default ops) \<and>
   State_map (foldl State_op State_default ops) = foldl map_op Map.empty ops \<and>
   (State_exists (foldl State_op State_default ops) n \<longleftrightarrow> foldl map_op Map.empty ops n \<noteq> None)"
  using vec.ops_inv [OF vec.empty_inv] vec.ops_refine [OF vec.empty_inv] vec.ops_exists
  by (simp add: vec.empty_abs apply_op_eq [symmetric])

text \<open>\<open>remove\<close> never panics; it takes out exactly the connection of that name, tells exactly that
  connection's task to shut down, and leaves every other connection; it answers no, and does nothing,
  when there is none.\<close>

lemma state_remove_exact:
  assumes "State_inv s"
  shows "(\<exists>c. State_map s n = Some c \<and>
        (\<exists>s'. State_remove s n = Some (True, s', [SignalShutdown (cn_shutdown_tx c)]) \<and>
           mset (conns s) = mset (c # conns s') \<and> State_map s' = (State_map s)(n := None)))
     \<or> (State_map s n = None \<and> State_remove s n = Some (False, s, []))"
proof -
  obtain b s' es where r: "State_remove s n = Some (b, s', es)" using State_remove_total by blast
  show ?thesis
  proof (cases b)
    case False
    with r State_remove_False [of s n s' es] show ?thesis by (auto simp: State_map_None_iff)
  next
    case True
    with r obtain c where c: "cn_name c = n" "mset (conns s) = mset (c # conns s')"
      "es = [SignalShutdown (cn_shutdown_tx c)]" using State_remove_True [of s n s' es] by auto
    then have "c \<in> set (conns s)" by (metis list.set_intros(1) set_mset_mset)
    with c assms have "State_map s n = Some c" by (simp add: State_map_Some_iff)
    with r True c removed_inv [OF assms, of n] show ?thesis by (auto simp: removed_def)
  qed
qed

end
