(* ===== verification/Daemon_Main.thy ===== *)
theory Daemon_Main
  imports Daemon_State
begin

text \<open>
  The daemon (\<open>daemon/src/main.rs\<close>): the handler of the commands of the CLI, the loop that reads commands
  from a control socket and writes the responses, and the main loop over accepted sockets, events and
  the interrupt signal.

  What the system and the other tasks answer (the pseudo terminal calls, the oneshot channels, the
  sockets) is given as input, as in the connection task; what the daemon does to the outside is the list
  of effects. \<open>Suspended\<close> means that the input ends before the operation does.
\<close>

section \<open>Handling a command\<close>

text \<open>
  The outcomes that the handler of \<open>Add\<close> sees, in order, and the identities of the two channels that
  the new connection gets; the outcomes that \<open>Reset\<close> and \<open>List\<close> see.
\<close>

record add_env =
  ae_openpt :: "(nat, io_error) Result"
  ae_grantpt :: "(unit, io_error) Result"
  ae_unlockpt :: "(unit, io_error) Result"
  ae_ptsname :: "(rstring, io_error) Result"
  ae_new :: pty_new_env
  ae_shutdown_ch :: sender
  ae_ctl_ch :: nat

record handler_env =
  he_add :: add_env
  he_reset :: "ctl_reply request_env"
  he_list :: "bool request_env list"

datatype 'f daemon_effect =
    PtyCall pty_syscall
  | Spawn "'f ConnectionTask"
  | Handle handle_effect
  | SpawnStream
  | Respond sender DaemonResponse
  | RemoveFile rstring

type_synonym 'f handled = "(DaemonResponse \<times> State \<times> 'f daemon_effect list) outcome"

definition already_exists :: "rstring \<Rightarrow> rstring" where
  "already_exists name = lit ''Connection with name '' @ [39] @ name @ [39] @ lit '' already exists''"

definition not_found :: "rstring \<Rightarrow> rstring" where
  "not_found name = lit ''No connection found with name: '' @ name"

definition reset_not_supported :: "rstring \<Rightarrow> rstring" where
  "reset_not_supported name = lit ''Connection '' @ [39] @ name @ [39] @ lit '' does not support reset command''"

definition unavailable :: "rstring \<Rightarrow> rstring" where
  "unavailable name =
     lit ''Connection '' @ [39] @ name @ [39] @ lit '' is currently unavailable (offline or busy)''"

definition handle_add ::
  "termios_api \<Rightarrow> State \<Rightarrow> rstring \<Rightarrow> u32 \<Rightarrow> u16 \<Rightarrow> add_env
     \<Rightarrow> DaemonResponse \<times> State \<times> 'f daemon_effect list" where
  "handle_add A state name addr port env =
     (if State_exists state name then (RespError (already_exists name), state, [])
      else case ae_openpt env of
        Err e \<Rightarrow> (RespError (lit ''Failed to create pty. See daemon logs for details''), state, [])
      | Ok master \<Rightarrow>
      case ae_grantpt env of
        Err e \<Rightarrow> (RespError (lit ''Failed to grant pty. See daemon logs for details''), state, [])
      | Ok _ \<Rightarrow>
      case ae_unlockpt env of
        Err e \<Rightarrow> (RespError (lit ''Failed to unlock pty. See daemon logs for details''), state, [])
      | Ok _ \<Rightarrow>
      case ae_ptsname env of
        Err e \<Rightarrow> (RespError (lit ''Failed to get pts name. See daemon logs for details''), state, [])
      | Ok slave_name \<Rightarrow>
      (case AsyncPty_new A master (ae_new env) of
         (Err e, calls) \<Rightarrow>
           (RespError (lit ''Failed to create AsyncPty. See daemon logs for details''), state, map PtyCall calls)
       | (Ok pty, calls) \<Rightarrow>
           (case build_and_spawn name addr port pty slave_name (ae_shutdown_ch env) (ae_ctl_ch env) of
              (conn, task) \<Rightarrow> (AddOk slave_name, State_add state conn, map PtyCall calls @ [Spawn task]))))"

definition handle_daemon_request ::
  "termios_api \<Rightarrow> State \<Rightarrow> DaemonRequest \<Rightarrow> handler_env \<Rightarrow> 'f handled" where
  "handle_daemon_request A state msg env =
     (case msg of
        ReqAdd name addr port \<Rightarrow> Done (handle_add A state name addr port (he_add env))
      | ReqRemove name \<Rightarrow>
          (case State_remove state name of
             None \<Rightarrow> Panicked
           | Some (True, state', es) \<Rightarrow> Done (RemoveOk, state', map Handle es)
           | Some (False, state', es) \<Rightarrow> Done (RespError (not_found name), state', map Handle es))
      | ReqList \<Rightarrow>
          (case State_list state (he_list env) of
             None \<Rightarrow> Suspended
           | Some (l, es) \<Rightarrow> Done (RespList l, state, map Handle es))
      | ReqReset name \<Rightarrow>
          (case State_send_hardware_ctl state name CtlReset (he_reset env) of
             (Some (Ok CtlOk), es) \<Rightarrow> Done (ResetOk, state, map Handle es)
           | (Some (Ok CtlNotSupported), es) \<Rightarrow> Done (RespError (reset_not_supported name), state, map Handle es)
           | (Some (Err _), es) \<Rightarrow> Done (RespError (unavailable name), state, map Handle es)
           | (None, es) \<Rightarrow> Done (RespError (not_found name), state, map Handle es)))"

section \<open>A control socket\<close>

text \<open>
  \<open>FramedWrite::send\<close> puts the item through the encoder and writes the bytes to the socket, \<open>io\<close> being
  the outcome of the writing; it returns the error of either.
\<close>

definition writer_send ::
  "bytes_api \<Rightarrow> DaemonResponse \<Rightarrow> (unit, io_error) Result \<Rightarrow> (u8 list, io_error) Result" where
  "writer_send B resp io =
     (case DaemonResponseEncoder_encode B resp [] of
        (Err e, _) \<Rightarrow> Err e
      | (Ok _, bytes) \<Rightarrow> (case io of Err e \<Rightarrow> Err e | Ok _ \<Rightarrow> Ok bytes))"

text \<open>
  One turn of the loop: what \<open>reader.next()\<close> yields, the oneshot channel made for the answer, whether the
  main task took the command, what came back on the channel, and the outcome of the writing.
\<close>

record stream_turn =
  su_next :: "(DaemonRequest, io_error) Result option"
  su_tx :: sender
  su_sent :: "(unit, unit) Result"
  su_answer :: "(DaemonResponse, unit) Result"
  su_io :: "(unit, io_error) Result"

datatype stream_effect = Submit DaemonEvent | WriteBytes "u8 list"

fun handle_stream :: "bytes_api \<Rightarrow> stream_turn list \<Rightarrow> stream_effect list outcome" where
  "handle_stream B [] = Suspended"
| "handle_stream B (turn # turns) =
     (case su_next turn of
        None \<Rightarrow> Done []
      | Some (Err e) \<Rightarrow> Done []
      | Some (Ok msg) \<Rightarrow>
          (case su_sent turn of
             Err _ \<Rightarrow> Done []
           | Ok _ \<Rightarrow>
               (let resp = (case su_answer turn of
                              Ok resp \<Rightarrow> resp
                            | Err _ \<Rightarrow> RespError (lit ''Something went wrong''))
                in case writer_send B resp (su_io turn) of
                     Err e \<Rightarrow> Panicked
                   | Ok bytes \<Rightarrow>
                       (case handle_stream B turns of
                          Suspended \<Rightarrow> Suspended
                        | Panicked \<Rightarrow> Panicked
                        | Done es \<Rightarrow> Done (Submit (CliCommand msg (su_tx turn)) # WriteBytes bytes # es)))))"

section \<open>The main loop\<close>

text \<open>The branches of \<open>select!\<close>: a socket was accepted or not, an event arrived, the interrupt signal.\<close>

datatype main_in =
    Accepted "(unit, io_error) Result"
  | Event DaemonEvent handler_env
  | CtrlC

definition main_step :: "termios_api \<Rightarrow> State \<Rightarrow> main_in \<Rightarrow> (State \<times> 'f daemon_effect list) outcome" where
  "main_step A state i =
     (case i of
        Accepted (Ok _) \<Rightarrow> Done (state, [SpawnStream])
      | Accepted (Err e) \<Rightarrow> Done (state, [])
      | Event (CliCommand ctl_message sender) env \<Rightarrow>
          (case handle_daemon_request A state ctl_message env of
             Suspended \<Rightarrow> Suspended
           | Panicked \<Rightarrow> Panicked
           | Done (resp, state', es) \<Rightarrow> Done (state', es @ [Respond sender resp]))
      | Event (ConnectionClosed name) env \<Rightarrow>
          (case State_remove state name of
             None \<Rightarrow> Panicked
           | Some (_, state', es) \<Rightarrow> Done (state', map Handle es))
      | CtrlC \<Rightarrow> Done (state, []))"

fun main_loop :: "termios_api \<Rightarrow> State \<Rightarrow> main_in list \<Rightarrow> (State \<times> 'f daemon_effect list) outcome" where
  "main_loop A state [] = Suspended"
| "main_loop A state (i # is) =
     (case main_step A state i of
        Suspended \<Rightarrow> Suspended
      | Panicked \<Rightarrow> Panicked
      | Done (state', es) \<Rightarrow>
          if i = CtrlC then Done (state', es)
          else (case main_loop A state' is of
                  Suspended \<Rightarrow> Suspended
                | Panicked \<Rightarrow> Panicked
                | Done (state'', es') \<Rightarrow> Done (state'', es @ es')))"

definition main ::
  "termios_api \<Rightarrow> rstring \<Rightarrow> (unit, io_error) Result \<Rightarrow> main_in list \<Rightarrow> (State \<times> 'f daemon_effect list) outcome" where
  "main A socket_path bind ins =
     (case bind of
        Err e \<Rightarrow> Panicked
      | Ok _ \<Rightarrow>
          (case main_loop A State_default ins of
             Suspended \<Rightarrow> Suspended
           | Panicked \<Rightarrow> Panicked
           | Done (state, es) \<Rightarrow> Done (state, [RemoveFile socket_path] @ es @ [RemoveFile socket_path])))"

section \<open>Lemmas\<close>

declare already_exists_def [daemon_defs] not_found_def [daemon_defs] reset_not_supported_def [daemon_defs]
  unavailable_def [daemon_defs] handle_add_def [daemon_defs] handle_daemon_request_def [daemon_defs]

text \<open>What the outside sees of a run: the answers to commands, and the commands in the input.\<close>

fun response_1 :: "'f daemon_effect \<Rightarrow> (sender \<times> DaemonResponse) list" where
  "response_1 (Respond tx r) = [(tx, r)]"
| "response_1 _ = []"

definition responses :: "'f daemon_effect list \<Rightarrow> (sender \<times> DaemonResponse) list" where
  "responses es = concat (map response_1 es)"

fun command_sender :: "main_in \<Rightarrow> sender list" where
  "command_sender (Event (CliCommand _ tx) _) = [tx]"
| "command_sender _ = []"

lemma responses_simps [simp]:
  "responses [] = []" "responses (e # es) = response_1 e @ responses es"
  "responses (es @ fs) = responses es @ responses fs"
  "responses (map Handle hs) = []" "responses (map PtyCall cs) = []"
proof -
  show "responses (map Handle hs) = []" by (induction hs) (simp_all add: responses_def)
  show "responses (map PtyCall cs) = []" by (induction cs) (simp_all add: responses_def)
qed (simp_all add: responses_def)

lemma handle_add_cases [consumes 1, case_names Added Refused]:
  assumes "handle_add A s name addr port env = (r, s', es)"
  obtains path master pty calls conn task where
      "\<not> State_exists s name" "ae_openpt env = Ok master" "ae_grantpt env = Ok ()" "ae_unlockpt env = Ok ()"
      "ae_ptsname env = Ok path" "AsyncPty_new A master (ae_new env) = (Ok pty, calls)"
      "build_and_spawn name addr port pty path (ae_shutdown_ch env) (ae_ctl_ch env) = (conn, task)"
      "r = AddOk path" "s' = State_add s conn" "es = map PtyCall calls @ [Spawn task]"
    | msg calls where "r = RespError msg" "s' = s" "es = map PtyCall calls"
        "State_exists s name \<or> \<not> is_ok (ae_openpt env) \<or> \<not> is_ok (ae_grantpt env) \<or> \<not> is_ok (ae_unlockpt env)
          \<or> \<not> is_ok (ae_ptsname env) \<or> (\<exists>m e c. ae_openpt env = Ok m \<and> AsyncPty_new A m (ae_new env) = (Err e, c))"
        "msg = already_exists name \<or> length msg \<le> 100"
proof -
  note def = assms [unfolded handle_add_def]
  show ?thesis
  proof (cases "State_exists s name")
    case True
    with def that(2) [of "already_exists name" "[]"] show ?thesis by auto
  next
    case False
    with def that show ?thesis
      by (fastforce split: Result.splits prod.splits)
  qed
qed

lemma build_and_spawn_conn:
  assumes "build_and_spawn name addr port pty path sh ch = (conn, task)"
  shows "conn = \<lparr>cn_name = name, cn_addr = addr, cn_port = port, cn_slave_path = path,
                  cn_shutdown_tx = sh, cn_ctl_req_tx = ch\<rparr>"
  using assms by (simp add: build_and_spawn_def Let_def)

lemma State_exists_map: "State_exists s n \<longleftrightarrow> State_map s n \<noteq> None"
  by (auto simp: State_exists_def list_ex_iff State_map_None_iff)

lemma State_remove_inv: "State_inv s \<Longrightarrow> State_remove s n = Some (b, s', es) \<Longrightarrow> State_inv s'"
  using removed_inv [of s n] by (simp add: removed_def)

lemma handle_inv:
  assumes "State_inv s" and "handle_daemon_request A s msg env = Done (r, s', es)"
  shows "State_inv s'"
proof (cases msg)
  case (ReqAdd name addr port)
  with assms(2) have "handle_add A s name addr port (he_add env) = (r, s', es)"
    by (simp add: handle_daemon_request_def)
  then show ?thesis
  proof (cases rule: handle_add_cases)
    case (Added path master pty calls conn task)
    moreover have "cn_name conn = name" by (simp add: build_and_spawn_conn [OF Added(7)])
    ultimately show ?thesis using assms(1) vec.add_inv [of s conn] by (simp add: State_exists_map)
  next
    case Refused
    with assms(1) show ?thesis by simp
  qed
next
  case (ReqRemove name)
  with assms show ?thesis
    by (auto simp: handle_daemon_request_def split: option.splits bool.splits dest: State_remove_inv)
qed (use assms in \<open>auto simp: handle_daemon_request_def
       split: option.splits prod.splits Result.splits DeviceControlResponse.splits\<close>)

lemma State_remove_not_None [simp]: "State_remove s n \<noteq> None"
  using State_remove_total [of s n] by auto

lemma handle_no_panic: "handle_daemon_request A s msg env \<noteq> Panicked"
  by (cases msg)
     (auto simp: handle_daemon_request_def
       split: option.splits prod.splits bool.splits Result.splits DeviceControlResponse.splits)

lemma handle_no_response:
  "handle_daemon_request A s msg env = Done (r, s', es) \<Longrightarrow> responses es = []"
  by (cases msg)
     (auto simp: handle_daemon_request_def elim!: handle_add_cases
       split: option.splits prod.splits bool.splits Result.splits DeviceControlResponse.splits)

interpretation daemon: task_loop "main_step A" "\<lambda>_. True" State_inv for A
proof
  show "State_inv s'" if "State_inv s" "main_step A s i = Done (s', es)"
    for s s' i and es :: "'a daemon_effect list"
    using that
    by (cases i) (auto simp: main_step_def dest: State_remove_inv handle_inv
      split: Result.splits DaemonEvent.splits outcome.splits option.splits prod.splits)
  show "main_step A s i \<noteq> Panicked" for s i
    by (cases i) (auto simp: main_step_def handle_no_panic
      split: Result.splits DaemonEvent.splits outcome.splits option.splits prod.splits)
qed

lemma main_step_CtrlC [simp]: "main_step A s CtrlC = Done (s, [])"
  by (simp add: main_step_def)

lemma main_loop_run:
  "main_loop A s ins = Done (s', es) \<Longrightarrow>
     daemon.run A s (takeWhile (\<lambda>i. i \<noteq> CtrlC) ins) = Done (s', es) \<and> CtrlC \<in> set ins"
proof (induction ins arbitrary: s es)
  case (Cons i ins)
  show ?case
  proof (cases "i = CtrlC")
    case True
    with Cons.prems show ?thesis by simp
  next
    case False
    with Cons show ?thesis by (auto split: outcome.splits)
  qed
qed simp

lemma main_loop_panics:
  "main_loop A s ins = (Panicked :: (State \<times> 'f daemon_effect list) outcome) \<Longrightarrow>
     daemon.run A s ins = (Panicked :: (State \<times> 'f daemon_effect list) outcome)"
proof (induction ins arbitrary: s)
  case (Cons i ins)
  then show ?case by (auto split: outcome.splits if_splits)
qed simp

lemma main_loop_no_panic:
  assumes "State_inv s"
  shows "main_loop A s ins \<noteq> (Panicked :: (State \<times> 'f daemon_effect list) outcome)"
proof
  assume "main_loop A s ins = (Panicked :: (State \<times> 'f daemon_effect list) outcome)"
  from main_loop_panics [OF this] show False
    using daemon.run_safe [OF assms] by (metis list_all_iff)
qed

lemma main_step_responses:
  "main_step A s i = Done (s', es) \<Longrightarrow> map fst (responses es) = command_sender i"
  by (cases i) (auto simp: main_step_def dest!: handle_no_response
      split: Result.splits DaemonEvent.splits outcome.splits option.splits prod.splits)

lemma run_responses:
  "daemon.run A s ins = Done (s', es) \<Longrightarrow> map fst (responses es) = concat (map command_sender ins)"
proof (induction ins arbitrary: s es)
  case (Cons i ins)
  then show ?case by (auto split: outcome.splits dest!: main_step_responses)
qed simp

text \<open>
  A response fits its encoding when each of its strings has at most 255 bytes. A turn of the stream loop
  serves a command when one was read and the main task took it; \<open>turn_response\<close> is what it then writes.
\<close>

definition response_fits :: "DaemonResponse \<Rightarrow> bool" where
  "response_fits r = list_all (\<lambda>s. length s \<le> 255) (response_strings r)"

definition turn_serves :: "stream_turn \<Rightarrow> bool" where
  "turn_serves t = ((case su_next t of Some (Ok _) \<Rightarrow> True | _ \<Rightarrow> False) \<and> is_ok (su_sent t))"

definition turn_response :: "stream_turn \<Rightarrow> DaemonResponse" where
  "turn_response t = (case su_answer t of Ok r \<Rightarrow> r | Err _ \<Rightarrow> RespError (lit ''Something went wrong''))"

definition turn_writes :: "stream_turn \<Rightarrow> bool" where
  "turn_writes t = (response_fits (turn_response t) \<and> is_ok (su_io t))"

lemma writer_send_ok_iff:
  assumes "bytes_crate B"
  shows "(\<exists>bytes. writer_send B r io = Ok bytes) \<longleftrightarrow> response_fits r \<and> is_ok io"
  using response_encode_result [OF assms, of r "[]"]
  by (auto simp: writer_send_def response_fits_def split: prod.splits Result.splits if_splits)

lemma handle_stream_turn:
  assumes "bytes_crate B"
  shows "handle_stream B (t # ts) =
    (if \<not> turn_serves t then Done []
     else if \<not> turn_writes t then Panicked
     else case handle_stream B ts of
            Done es \<Rightarrow> Done (map Submit (case su_next t of Some (Ok m) \<Rightarrow> [CliCommand m (su_tx t)] | _ \<Rightarrow> []) @
              map WriteBytes (case writer_send B (turn_response t) (su_io t) of Ok bs \<Rightarrow> [bs] | _ \<Rightarrow> []) @ es)
          | r \<Rightarrow> r)"
  using writer_send_ok_iff [OF assms, of "turn_response t" "su_io t"]
  by (auto simp: turn_serves_def turn_writes_def turn_response_def Let_def
      split: option.splits Result.splits outcome.splits)

lemma length_messages:
  "length (already_exists n) = length n + 38" "length (not_found n) = length n + 31"
  "length (reset_not_supported n) = length n + 44" "length (unavailable n) = length n + 56"
  by (simp_all add: daemon_defs)

lemma first_such_Cons:
  "(\<exists>pre t post. u # us = pre @ t # post \<and> list_all P pre \<and> Q t) \<longleftrightarrow>
     Q u \<or> P u \<and> (\<exists>pre t post. us = pre @ t # post \<and> list_all P pre \<and> Q t)" (is "?L \<longleftrightarrow> ?R")
proof
  show "?L \<Longrightarrow> ?R" by (auto simp: Cons_eq_append_conv) blast
  show "?R \<Longrightarrow> ?L"
  proof (elim disjE conjE exE)
    show "Q u \<Longrightarrow> ?L" by (metis append_Nil list.pred_inject(1))
    show "?L" if "P u" "us = pre @ t # post" "list_all P pre" "Q t" for pre t post
      using that by (metis append_Cons list.pred_inject(2))
  qed
qed

text \<open>The name a request carries.\<close>

fun request_name :: "DaemonRequest \<Rightarrow> rstring" where
  "request_name (ReqAdd n _ _) = n"
| "request_name (ReqRemove n) = n"
| "request_name ReqList = []"
| "request_name (ReqReset n) = n"

text \<open>Values for the examples: a terminal that can be opened, and requests that nobody answers.\<close>

definition demo_add :: add_env where
  "demo_add = \<lparr>ae_openpt = Ok 4, ae_grantpt = Ok (), ae_unlockpt = Ok (), ae_ptsname = Ok (lit ''/dev/pts/3''),
     ae_new = \<lparr>ne_getfl = Ok 2, ne_setfl = Ok (), ne_tiocpkt = Ok (), ne_ptsname = Ok (lit ''/dev/pts/3''), ne_open = Ok 5,
       ne_ext_get = Ok \<lparr>control_flags = 0x30, local_flags = 0, tio_rest = 13\<rparr>, ne_ext_set = Ok (),
       ne_tcgetattr = Ok \<lparr>control_flags = 0x30, local_flags = 0x10000, tio_rest = 13\<rparr>, ne_asyncfd = Ok ()\<rparr>,
     ae_shutdown_ch = 1, ae_ctl_ch = 2\<rparr>"

definition demo_env :: handler_env where
  "demo_env = \<lparr>he_add = demo_add, he_reset = (7, Ok (), Ok (Ok CtlOk)), he_list = [(8, Ok (), Ok True)]\<rparr>"

definition demo_conn :: Connection where
  "demo_conn = \<lparr>cn_name = lit ''a'', cn_addr = 0x7F000001, cn_port = 15113, cn_slave_path = lit ''/dev/pts/3'',
     cn_shutdown_tx = 1, cn_ctl_req_tx = 2\<rparr>"

section \<open>Properties\<close>

text \<open>Whatever commands and closed connections arrive, the main loop never panics and no two
  registered connections have the same name.\<close>

lemma main_loop_names_distinct:
  fixes A :: termios_api
  shows "(case (main_loop A State_default ins :: (State \<times> 'f daemon_effect list) outcome) of
      Suspended \<Rightarrow> True
    | Panicked \<Rightarrow> False
    | Done (s, es) \<Rightarrow> distinct (map cn_name (conns s)))"
proof (cases "main_loop A State_default ins :: (State \<times> 'f daemon_effect list) outcome")
  case Panicked
  with main_loop_no_panic [OF vec.empty_inv] show ?thesis by blast
next
  case (Done r)
  then obtain s es where r: "main_loop A State_default ins = Done (s, es :: 'f daemon_effect list)" by (cases r) simp
  with main_loop_run [OF this] daemon.run_inv [OF vec.empty_inv, of "takeWhile (\<lambda>i. i \<noteq> CtrlC) ins" A s es] show ?thesis
    by (simp add: list_all_iff State_inv_def)
qed simp

text \<open>Every command that reaches the main loop before the interrupt is answered exactly once, in the
  order the commands arrived, on its own channel.\<close>

lemma main_answers_in_order:
  assumes "main_loop A s ins = Done (s', es)"
  shows "map fst (responses es) = concat (map command_sender (takeWhile (\<lambda>i. i \<noteq> CtrlC) ins))"
  using main_loop_run [OF assms] run_responses by blast

text \<open>C24. Adding a connection succeeds exactly when the name is free and every step of setting up the
  terminal succeeds. Then the answer is the path of the terminal, exactly one task is spawned, for the
  address and port asked for and on that terminal, and the registry gains exactly that connection;
  otherwise the answer is an error, nothing is spawned and the registry is unchanged.\<close>

theorem handle_add_correct:
  assumes "State_inv s"
    and "handle_daemon_request A s (ReqAdd name addr port) env = Done (r, s', es)"
  shows "(\<exists>path master pty calls conn task.
       State_map s name = None \<and> ae_openpt (he_add env) = Ok master \<and> ae_grantpt (he_add env) = Ok () \<and>
       ae_unlockpt (he_add env) = Ok () \<and> ae_ptsname (he_add env) = Ok path \<and>
       AsyncPty_new A master (ae_new (he_add env)) = (Ok pty, calls) \<and>
       r = AddOk path \<and> es = map PtyCall calls @ [Spawn task] \<and>
       State_map s' = (State_map s)(name \<mapsto> conn) \<and>
       cn_addr conn = addr \<and> cn_port conn = port \<and> cn_slave_path conn = path \<and>
       ct_name task = name \<and> ct_master task = pty \<and> tb_addr (ct_tcp task) = addr \<and> tb_port (ct_tcp task) = port)
   \<or> (\<exists>msg calls. r = RespError msg \<and> s' = s \<and> es = map PtyCall calls \<and>
       (State_map s name \<noteq> None \<or> \<not> is_ok (ae_openpt (he_add env)) \<or> \<not> is_ok (ae_grantpt (he_add env)) \<or>
        \<not> is_ok (ae_unlockpt (he_add env)) \<or> \<not> is_ok (ae_ptsname (he_add env)) \<or>
        (\<exists>m e c. ae_openpt (he_add env) = Ok m \<and> AsyncPty_new A m (ae_new (he_add env)) = (Err e, c))))"
proof -
  from assms(2) have "handle_add A s name addr port (he_add env) = (r, s', es)"
    by (simp add: handle_daemon_request_def)
  then show ?thesis
  proof (cases rule: handle_add_cases)
    case (Added path master pty calls conn task)
    note conn = build_and_spawn_conn [OF Added(7)]
    have "State_map s' = (State_map s)(name \<mapsto> conn)"
      using vec.add_abs [OF assms(1), of conn] Added(1,9) by (simp add: conn State_exists_map)
    moreover have "ct_name task = name" "ct_master task = pty" "tb_addr (ct_tcp task) = addr" "tb_port (ct_tcp task) = port"
      using Added(7) by (auto simp: build_and_spawn_def TcpBridge_new_def Let_def)
    moreover have "cn_addr conn = addr" "cn_port conn = port" "cn_slave_path conn = path"
      by (simp_all add: conn)
    moreover from Added(1) have "State_map s name = None" by (simp add: State_exists_map)
    ultimately show ?thesis using Added(2-6,8-10) by blast
  next
    case (Refused msg calls)
    then show ?thesis by (intro disjI2) (auto simp: State_exists_map)
  qed
qed

theorem handle_add_correct_witness:
  "\<exists>path master pty calls conn (task :: unit ConnectionTask).
     ae_ptsname demo_add = Ok path \<and> AsyncPty_new linux_termios master (ae_new demo_add) = (Ok pty, calls) \<and>
     fst (handle_add linux_termios State_default (lit ''a'') 1 2 demo_add :: _ \<times> _ \<times> unit daemon_effect list) = AddOk path \<and>
     ct_master task = pty \<and> tb_port (ct_tcp task) = 2"
proof -
  obtain r s' and es :: "unit daemon_effect list" where
    h: "handle_add linux_termios State_default (lit ''a'') 1 2 demo_add = (r, s', es)"
    by (cases "handle_add linux_termios State_default (lit ''a'') 1 2 demo_add :: _ \<times> _ \<times> unit daemon_effect list")
  then have "handle_daemon_request linux_termios State_default (ReqAdd (lit ''a'') 1 2) demo_env = Done (r, s', es)"
    by (simp add: handle_daemon_request_def demo_env_def)
  from handle_add_correct [OF vec.empty_inv this] h show ?thesis
    by (auto simp: demo_env_def demo_add_def vec.empty_abs AsyncPty_new_def set_extproc_def Let_def)
qed



text \<open>A listing has one entry per registered connection, in order, with its name, address, port,
  terminal and the status its task answered, or not connected when the task is gone; it changes nothing,
  asks only registered connections, and is there as soon as each of them has answered.\<close>

lemma handle_list_correct:
  assumes "length (conns s) \<le> length (he_list env)"
  shows "\<exists>l es. handle_daemon_request A s ReqList env = Done (RespList l, s, map Handle es) \<and>
     map (\<lambda>i. (ci_name i, ci_addr i, ci_port i, ci_pts_path i)) l
       = map (\<lambda>c. (cn_name c, cn_addr c, cn_port c, cn_slave_path c)) (conns s) \<and>
     map ci_connected l = map2 (\<lambda>c (tx, sent, answer). sent = Ok () \<and> answer = Ok True) (conns s) (he_list env) \<and>
     set es \<subseteq> {Enqueue (cn_ctl_req_tx c) (Status tx) | c tx. c \<in> set (conns s)}"
proof -
  from list_loop_total [OF assms] obtain l es where l: "list_loop (conns s) (he_list env) = Some (l, es)" by blast
  have "fst (get_status c e) = (case e of (tx, sent, answer) \<Rightarrow> sent = Ok () \<and> answer = Ok True)" for c e
    by (auto simp: get_status_def split: prod.split Result.split)
  with l list_loop_lists [OF l] list_loop_requests [OF l] show ?thesis
    by (intro exI [of _ l] exI [of _ es]) (simp add: handle_daemon_request_def State_list_def case_prod_beta)
qed

text \<open>C37. The task that serves a control socket panics exactly at the first command whose answer cannot
  be written: because a string of the answer has more than 255 bytes, or because the socket fails. It
  ends without a panic at the end of the input, at a request that cannot be decoded and when the main
  task is gone.\<close>

theorem stream_panic_iff:
  assumes "bytes_crate B"
  shows "handle_stream B turns = Panicked \<longleftrightarrow>
    (\<exists>pre t post. turns = pre @ t # post \<and> list_all (\<lambda>t. turn_serves t \<and> turn_writes t) pre \<and>
       turn_serves t \<and> \<not> turn_writes t)"
proof (induction turns)
  case (Cons u turns)
  then show ?case
    unfolding handle_stream_turn [OF assms] first_such_Cons by (auto split: outcome.split)
qed simp

theorem stream_panic_iff_witness:
  "handle_stream bytes_ref [\<lparr>su_next = Some (Ok ReqList), su_tx = 0, su_sent = Ok (),
     su_answer = Ok (RespError (replicate 256 97)), su_io = Ok ()\<rparr>] = Panicked"
  by (subst stream_panic_iff [OF ref.bytes_crate_axioms])
     (auto simp: Cons_eq_append_conv turn_serves_def turn_writes_def turn_response_def response_fits_def)

text \<open>Answers to commands with short names always fit: when the name in the command has at most 199
  bytes, and the registered names and terminal paths are at most 255 bytes long, every answer of the
  handler can be encoded.\<close>

lemma short_names_fit:
  assumes "handle_daemon_request A s msg env = Done (r, s', es)"
    and "length (request_name msg) \<le> 199"
    and "list_all (\<lambda>c. length (cn_name c) \<le> 255 \<and> length (cn_slave_path c) \<le> 255) (conns s)"
    and "case ae_ptsname (he_add env) of Ok p \<Rightarrow> length p \<le> 255 | Err _ \<Rightarrow> True"
  shows "response_fits r"
proof (cases msg)
  case (ReqAdd name addr port)
  with assms(1) have "handle_add A s name addr port (he_add env) = (r, s', es)"
    by (simp add: handle_daemon_request_def)
  then show ?thesis
    by (cases rule: handle_add_cases) (use ReqAdd assms in \<open>auto simp: response_fits_def length_messages\<close>)
next
  case ReqList
  with assms(1) obtain l hs where l: "list_loop (conns s) (he_list env) = Some (l, hs)" "r = RespList l"
    by (auto simp: handle_daemon_request_def State_list_def split: option.splits)
  have "list_all (\<lambda>(n, _, _, p). length n \<le> 255 \<and> length p \<le> 255)
      (map (\<lambda>i. (ci_name i, ci_addr i, ci_port i, ci_pts_path i)) l)"
    using assms(3) list_loop_lists [OF l(1)] by (simp add: list_all_iff)
  then show ?thesis using l(2) by (auto simp: response_fits_def list_all_iff)
qed (use assms in \<open>auto simp: handle_daemon_request_def response_fits_def length_messages
       split: option.splits prod.splits bool.splits Result.splits DeviceControlResponse.splits\<close>)

text \<open>A long name breaks the control socket: removing a name of 225 bytes or more that is not
  registered, which the protocol can carry, makes an error message that does not fit, and the task that
  serves the socket panics instead of answering.\<close>

lemma long_name_breaks_stream:
  assumes "bytes_crate B" and "225 \<le> length name" and "State_map s name = None"
    and "handle_daemon_request A s (ReqRemove name) env = Done (r, s', es)"
  shows "handle_stream B (\<lparr>su_next = Some (Ok (ReqRemove name)), su_tx = tx, su_sent = Ok (), su_answer = Ok r,
     su_io = Ok ()\<rparr> # turns) = Panicked"
proof -
  from assms(3) have "position_of (\<lambda>c. cn_name c = name) (conns s) = None"
    by (simp add: position_of_None_iff State_map_None_iff)
  then have "State_remove s name = Some (False, s, [])" by (simp add: State_remove_def)
  with assms(4) have "r = RespError (not_found name)" by (simp add: handle_daemon_request_def)
  with assms(2) show ?thesis
    unfolding handle_stream_turn [OF assms(1)]
    by (simp add: turn_serves_def turn_writes_def turn_response_def response_fits_def length_messages)
qed

end
