(* ===== verification/Connection_Inv.thy ===== *)
theory Connection_Inv
  imports Connection_Task "HOL-Library.Multiset"
begin

text \<open>
  Invariants and histories of the connection task: that its state, its TCP stream, its pending control
  request and its backoff always fit together; that messages from the terminal reach the device in
  order and without loss as long as the task runs; that data from the device reaches the terminal in
  order; that every control and status request the task takes is answered exactly once; that the
  task never panics and announces its end exactly once.
\<close>

section \<open>Invariant and admissible inputs\<close>

text \<open>The messages that come from the terminal, and so may be held back for a reconnect.\<close>

fun from_pty :: "DeviceMessage \<Rightarrow> bool" where
  "from_pty (Data n arr) = DeviceMessage_wf (Data n arr)"
| "from_pty (Config _ _ _ _ _) = True"
| "from_pty _ = False"

definition conn_inv :: "'f ConnectionTask \<Rightarrow> bool" where
  "conn_inv t \<longleftrightarrow> length (ct_pty_buf t) = MAX_MESSAGE_LEN \<and>
     (case ct_state t of
        Connected \<Rightarrow> tb_framed (ct_tcp t) \<noteq> None
      | Reconnecting d p \<Rightarrow>
          tb_framed (ct_tcp t) = None \<and> ct_pending_hw_ctl t = None \<and>
          INITIAL_RECONNECT_BACKOFF \<le> d \<and> d \<le> MAX_RECONNECT_BACKOFF \<and> pred_option from_pty p
      | Resyncing m \<Rightarrow>
          tb_framed (ct_tcp t) \<noteq> None \<and> ct_pending_hw_ctl t = None \<and> from_pty m
      | ShuttingDown \<Rightarrow> True)"

text \<open>
  What the environment can give: \<open>readv\<close> stays within the buffers it was given, and a message that
  the framed stream yields has the array its type says.
\<close>

fun admissible :: "'f step_in \<Rightarrow> bool" where
  "admissible (InConnected (CPty its _)) = list_all (readv_fits MAX_MESSAGE_LEN) its"
| "admissible (InConnected (CTcp (Some (Ok m), _) _)) = DeviceMessage_wf m"
| "admissible _ = True"

section \<open>Histories\<close>

text \<open>The message that a step reads from the terminal.\<close>

definition pty_message :: "termios_api \<Rightarrow> 'f ConnectionTask \<Rightarrow> 'f step_in \<Rightarrow> DeviceMessage list" where
  "pty_message A t i =
     (case i of
        InConnected (CPty its _) \<Rightarrow>
          (case AsyncPty_read A (ct_master t) (ct_pty_buf t) its of
             Some (Ok (PtyTermiosChange c), _, _, _) \<Rightarrow> [config_message c]
           | Some (Ok (PtyData n), _, b, _) \<Rightarrow>
               [Data (of_nat n) (take n b @ replicate (MAX_MESSAGE_LEN - n) 0)]
           | _ \<Rightarrow> [])
      | _ \<Rightarrow> [])"

text \<open>The data message that a step receives from the device.\<close>

fun device_message :: "'f step_in \<Rightarrow> DeviceMessage list" where
  "device_message (InConnected (CTcp (Some (Ok (Data n arr)), _) _)) = [Data n arr]"
| "device_message _ = []"

text \<open>Messages from the terminal that the task still holds.\<close>

definition unsent :: "'f ConnectionTask \<Rightarrow> DeviceMessage list" where
  "unsent t =
     (case ct_state t of
        Reconnecting _ (Some m) \<Rightarrow> [m]
      | Resyncing m \<Rightarrow> [m]
      | _ \<Rightarrow> [])"

text \<open>Messages of the terminal that were sent; control requests are not among them.\<close>

fun sent_1 :: "effect \<Rightarrow> DeviceMessage list" where
  "sent_1 (Tcp (TcpSent (ControlReq _))) = []"
| "sent_1 (Tcp (TcpSent m)) = [m]"
| "sent_1 _ = []"

definition sent :: "effect list \<Rightarrow> DeviceMessage list" where
  "sent es = concat (map sent_1 es)"

fun written_1 :: "effect \<Rightarrow> u8 list" where
  "written_1 (PtyWrite bs) = bs"
| "written_1 _ = []"

definition pty_written :: "effect list \<Rightarrow> u8 list" where
  "pty_written es = concat (map written_1 es)"

fun answered_1 :: "effect \<Rightarrow> sender list" where
  "answered_1 (ReplyCtl tx _) = [tx]"
| "answered_1 _ = []"

definition answered :: "effect list \<Rightarrow> sender list" where
  "answered es = concat (map answered_1 es)"

fun status_1 :: "effect \<Rightarrow> (sender \<times> bool) list" where
  "status_1 (ReplyStatus tx b) = [(tx, b)]"
| "status_1 _ = []"

definition status_answers :: "effect list \<Rightarrow> (sender \<times> bool) list" where
  "status_answers es = concat (map status_1 es)"

fun notices_1 :: "effect \<Rightarrow> DaemonEvent list" where
  "notices_1 (Notify e) = [e]"
| "notices_1 _ = []"

definition notices :: "effect list \<Rightarrow> DaemonEvent list" where
  "notices es = concat (map notices_1 es)"

text \<open>The requests that a waiting loop takes before it ends.\<close>

fun wait_taken :: "wait_sel list \<Rightarrow> ConnectionTaskRequest list" where
  "wait_taken (WCtl (Some r) # sels) = r # wait_taken sels"
| "wait_taken _ = []"

fun resync_taken :: "'f resync_sel list \<Rightarrow> ConnectionTaskRequest list" where
  "resync_taken (RCtl (Some r) # sels) = r # resync_taken sels"
| "resync_taken _ = []"

fun taken :: "'f step_in \<Rightarrow> ConnectionTaskRequest list" where
  "taken (InConnected (CCtl (Some r) _)) = [r]"
| "taken (InReconnecting sels _) = wait_taken sels"
| "taken (InResyncing sels) = resync_taken sels"
| "taken _ = []"

fun ctl_sender :: "ConnectionTaskRequest \<Rightarrow> sender list" where
  "ctl_sender (HardwareControl _ tx) = [tx]"
| "ctl_sender (Status _) = []"

fun status_sender :: "ConnectionTaskRequest \<Rightarrow> sender list" where
  "status_sender (HardwareControl _ _) = []"
| "status_sender (Status tx) = [tx]"

definition pending_ctl :: "'f ConnectionTask \<Rightarrow> sender list" where
  "pending_ctl t = (case ct_pending_hw_ctl t of Some tx \<Rightarrow> [tx] | None \<Rightarrow> [])"

text \<open>
  The executions of the loop: inputs, messages read from the terminal, effects, and the task after them;
  \<open>run_log\<close> computes them.
\<close>

inductive conn_run ::
  "termios_api \<Rightarrow> 'f ConnectionTask \<Rightarrow> 'f step_in list \<Rightarrow> DeviceMessage list \<Rightarrow> effect list
     \<Rightarrow> 'f ConnectionTask \<Rightarrow> bool" for A t0 where
  start: "conn_run A t0 [] [] [] t0"
| step: "conn_run A t0 ins rs es t \<Longrightarrow> \<not> should_close t \<Longrightarrow> admissible i \<Longrightarrow>
     Connection_Task.step A t i = Done (t', es') \<Longrightarrow>
     conn_run A t0 (ins @ [i]) (rs @ pty_message A t i) (es @ es') t'"

fun run_log ::
  "termios_api \<Rightarrow> 'f ConnectionTask \<Rightarrow> 'f step_in list
     \<Rightarrow> (DeviceMessage list \<times> effect list \<times> 'f ConnectionTask) option" where
  "run_log A t [] = Some ([], [], t)"
| "run_log A t (i # ins) =
     (if should_close t then None
      else case Connection_Task.step A t i of
             Done (t', es) \<Rightarrow>
               map_option (\<lambda>(rs, es', u). (pty_message A t i @ rs, es @ es', u)) (run_log A t' ins)
           | _ \<Rightarrow> None)"

text \<open>
  A run for the examples: the first connection, a status request; a byte read from the terminal whose
  send fails; a reset refused while waiting; the new connection and the byte sent again; a reset that
  the device answers; data for the terminal.
\<close>

definition demo_task :: "unit ConnectionTask" where
  "demo_task = snd (build_and_spawn (lit ''a'') 0x7F000001 15113
     \<lparr>pty_fd = 4, current_tio = \<lparr>control_flags = 0x30, local_flags = 0x10000, tio_rest = 13\<rparr>, slave_fd = 5\<rparr>
     (lit ''/dev/pts/3'') 0 0)"

definition demo_connect :: "unit connect_env" where
  "demo_connect = \<lparr>ce_connect = Ok (), ce_nodelay = Ok (), ce_framed = ()\<rparr>"

definition demo_packet :: pty_iter where
  "demo_packet =
     \<lparr>it_readable = Ok (), it_readv = ReadvOk [0, 7], it_tcget = Err (IoError WouldBlock []),
      it_ext_get = Err (IoError WouldBlock []), it_ext_set = Ok (), it_tcget2 = Err (IoError WouldBlock [])\<rparr>"

definition demo_inputs :: "unit step_in list" where
  "demo_inputs =
     [InReconnecting [WCtl (Some (Status 1)), WSleepDone] demo_connect,
      InConnected (CCtl (Some (Status 2)) (Ok (), ())),
      InConnected (CPty [demo_packet] (Err (IoError ConnectionAborted []), ())),
      InReconnecting [WCtl (Some (HardwareControl CtlReset 3)), WSleepDone] demo_connect,
      InResyncing [RSendDone (Ok (), ())],
      InConnected (CCtl (Some (HardwareControl CtlReset 4)) (Ok (), ())),
      InConnected (CTcp (Some (Ok (ControlRes CtlOk)), ()) (Ok ())),
      InConnected (CTcp (Some (Ok (Data 2 ([8, 9] @ replicate 253 0))), ()) (Ok ()))]"

definition demo_effects :: "effect list" where
  "demo_effects =
     [ReplyStatus 1 False, ReplyStatus 2 True, Tcp (TcpSendFailed (Data 1 (7 # replicate 254 0))),
      ReplyCtl 3 (Err Unavailable), Tcp (TcpSent (Data 1 (7 # replicate 254 0))),
      Tcp (TcpSent (ControlReq CtlReset)), ReplyCtl 4 (Ok CtlOk), PtyWrite [8, 9]]"

definition demo_end :: "unit ConnectionTask" where
  "demo_end = demo_task\<lparr>ct_tcp := (ct_tcp demo_task)\<lparr>tb_framed := Some ()\<rparr>, ct_state := Connected,
     ct_pty_buf := 7 # replicate 254 0\<rparr>"

text \<open>The input of a step in which the shutdown signal comes after some requests.\<close>

fun shutdown_input :: "ConnState \<Rightarrow> ConnectionTaskRequest list \<Rightarrow> 'f connect_env \<Rightarrow> 'f step_in" where
  "shutdown_input (Reconnecting _ _) reqs env = InReconnecting (map (\<lambda>r. WCtl (Some r)) reqs @ [WShutdown]) env"
| "shutdown_input (Resyncing _) reqs _ = InResyncing (map (\<lambda>r. RCtl (Some r)) reqs @ [RShutdown])"
| "shutdown_input _ _ _ = InConnected CShutdown"

text \<open>The input of a step in which the wait is over and the attempt to connect fails.\<close>

fun failed_attempt :: "'f step_in \<Rightarrow> bool" where
  "failed_attempt (InReconnecting sels env) =
     ((case reconnect_loop sels of Done (True, _) \<Rightarrow> True | _ \<Rightarrow> False) \<and>
      (case (ce_connect env, ce_nodelay env) of (Ok _, Ok _) \<Rightarrow> False | _ \<Rightarrow> True))"
| "failed_attempt _ = False"

definition demo_failure :: "unit step_in" where
  "demo_failure = InReconnecting [WCtl (Some (Status 1)), WSleepDone]
     (demo_connect\<lparr>ce_connect := Err (IoError ConnectionAborted [])\<rparr>)"

section \<open>Lemmas on histories\<close>

lemma sent_simps [simp]: "sent [] = []" "sent (e # es) = sent_1 e @ sent es" "sent (es @ fs) = sent es @ sent fs"
  by (simp_all add: sent_def)

lemma pty_written_simps [simp]:
  "pty_written [] = []" "pty_written (e # es) = written_1 e @ pty_written es"
  "pty_written (es @ fs) = pty_written es @ pty_written fs"
  by (simp_all add: pty_written_def)

lemma answered_simps [simp]:
  "answered [] = []" "answered (e # es) = answered_1 e @ answered es"
  "answered (es @ fs) = answered es @ answered fs"
  by (simp_all add: answered_def)

lemma status_answers_simps [simp]:
  "status_answers [] = []" "status_answers (e # es) = status_1 e @ status_answers es"
  "status_answers (es @ fs) = status_answers es @ status_answers fs"
  by (simp_all add: status_answers_def)

lemma notices_simps [simp]:
  "notices [] = []" "notices (e # es) = notices_1 e @ notices es" "notices (es @ fs) = notices es @ notices fs"
  by (simp_all add: notices_def)

lemma should_close_iff [simp]: "should_close t \<longleftrightarrow> ct_state t = ShuttingDown"
  by (simp add: should_close_def split: ConnState.split)

lemma fail_pending_ctl_eq:
  "fail_pending_ctl t = (t\<lparr>ct_pending_hw_ctl := None\<rparr>, map (\<lambda>tx. ReplyCtl tx (Err Unavailable)) (pending_ctl t))"
  by (cases t) (simp add: fail_pending_ctl_def pending_ctl_def split: option.split)

lemma answered_fail [simp]: "answered (map (\<lambda>tx. ReplyCtl tx r) txs) = txs"
  by (induction txs) simp_all

lemma other_fail [simp]:
  "sent (map (\<lambda>tx. ReplyCtl tx r) txs) = []" "pty_written (map (\<lambda>tx. ReplyCtl tx r) txs) = []"
  "status_answers (map (\<lambda>tx. ReplyCtl tx r) txs) = []" "notices (map (\<lambda>tx. ReplyCtl tx r) txs) = []"
  by (induction txs) simp_all

text \<open>What the waiting loops do to the outside: they answer what they take, and nothing else.\<close>

lemma reconnect_loop_effects:
  "reconnect_loop sels = Done (b, es) \<Longrightarrow>
     answered es = concat (map ctl_sender (wait_taken sels)) \<and>
     status_answers es = map (\<lambda>tx. (tx, False)) (concat (map status_sender (wait_taken sels))) \<and>
     sent es = [] \<and> pty_written es = [] \<and> notices es = []"
  by (induction sels arbitrary: es rule: reconnect_loop.induct) (auto split: outcome.splits prod.splits)

lemma resync_loop_effects:
  "resync_loop sels = Done (r, es) \<Longrightarrow>
     answered es = concat (map ctl_sender (resync_taken sels)) \<and>
     status_answers es = map (\<lambda>tx. (tx, False)) (concat (map status_sender (resync_taken sels))) \<and>
     sent es = [] \<and> pty_written es = [] \<and> notices es = []"
  by (induction sels arbitrary: es rule: resync_loop.induct) (auto split: outcome.splits prod.splits)

lemma reconnect_loop_no_panic [simp]: "reconnect_loop sels \<noteq> Panicked"
  by (induction sels rule: reconnect_loop.induct) (auto split: outcome.splits prod.splits)

lemma resync_loop_no_panic [simp]: "resync_loop sels \<noteq> Panicked"
  by (induction sels rule: resync_loop.induct) (auto split: outcome.splits prod.splits)

section \<open>One step\<close>

text \<open>What one step of the loop does to the invariant and to the histories.\<close>

definition step_facts ::
  "termios_api \<Rightarrow> 'f ConnectionTask \<Rightarrow> 'f step_in \<Rightarrow> 'f ConnectionTask \<Rightarrow> effect list \<Rightarrow> bool" where
  "step_facts A t i t' es \<longleftrightarrow>
     conn_inv t' \<and> ct_name t' = ct_name t \<and> notices es = [] \<and>
     (\<exists>lost. unsent t @ pty_message A t i = sent es @ unsent t' @ lost \<and> length lost \<le> 1 \<and>
        (ct_state t' \<noteq> ShuttingDown \<longrightarrow> lost = [])) \<and>
     (\<exists>lost. concat (map payload (device_message i)) = pty_written es @ lost \<and>
        (ct_state t' \<noteq> ShuttingDown \<longrightarrow> lost = [])) \<and>
     mset (answered es @ pending_ctl t') = mset (pending_ctl t @ concat (map ctl_sender (taken i))) \<and>
     status_answers es
       = map (\<lambda>tx. (tx, ct_state t = Connected)) (concat (map status_sender (taken i)))"

declare step_facts_def [history_defs] conn_inv_def [history_defs] unsent_def [history_defs]
  pty_message_def [history_defs] pending_ctl_def [history_defs] INITIAL_RECONNECT_BACKOFF_def [history_defs]
  MAX_RECONNECT_BACKOFF_def [history_defs]

lemma step_ctl_facts:
  assumes "conn_inv t" "ct_state t = Connected" "step_connected_ctl t req out = Done (st, t', es)"
  shows "step_facts A t (InConnected (CCtl req out)) (case st of Some s \<Rightarrow> t'\<lparr>ct_state := s\<rparr> | None \<Rightarrow> t') es"
proof (cases req)
  case None
  with assms show ?thesis
    by (auto simp: history_defs step_connected_ctl_def)
next
  case (Some r)
  show ?thesis
  proof (cases r)
    case (Status tx)
    with Some assms show ?thesis
      by (auto simp: step_connected_ctl_def step_facts_def unsent_def pty_message_def)
  next
    case (HardwareControl ctl tx)
    note req = Some HardwareControl
    show ?thesis
    proof (cases "ct_pending_hw_ctl t")
      case (Some tx')
      with req assms show ?thesis
        by (auto simp: step_connected_ctl_def step_facts_def unsent_def pty_message_def)
    next
      case None
      obtain s tcp io where snd: "TcpBridge_send (ct_tcp t) (ControlReq ctl) out = (s, tcp, io)"
        by (cases "TcpBridge_send (ct_tcp t) (ControlReq ctl) out")
      then show ?thesis
        by (cases rule: TcpBridge_send_cases)
           (use None req snd assms in \<open>auto simp: history_defs step_connected_ctl_def\<close>)
    qed
  qed
qed

lemma step_tcp_facts:
  assumes "conn_inv t" "ct_state t = Connected" "step_connected_tcp t got wr = Done (st, t', es)"
  shows "step_facts A t (InConnected (CTcp got wr)) (case st of Some s \<Rightarrow> t'\<lparr>ct_state := s\<rparr> | None \<Rightarrow> t') es"
proof -
  obtain s tcp where nx: "TcpBridge_next (ct_tcp t) got = (s, tcp)" by (cases "TcpBridge_next (ct_tcp t) got")
  then show ?thesis
  proof (cases rule: TcpBridge_next_cases)
    case (Got m f)
    then obtain f' where got: "got = (Some (Ok m), f')" by (cases got) auto
    have cut: "\<exists>lost. take n arr = take k (take n arr) @ lost" for n k and arr :: "u8 list"
      by (metis append_take_drop_id)
    show ?thesis
      using nx Got got assms cut
      by (cases m; cases wr; cases "ct_pending_hw_ctl t")
         (auto simp: history_defs step_connected_tcp_def Let_def slice_to_Some_iff split: option.splits)
  next
    case (Lost e)
    with assms(1,2) have "device_message (InConnected (CTcp got wr)) = []"
      by (cases "InConnected (CTcp got wr)" rule: device_message.cases) (auto simp: conn_inv_def)
    with nx Lost assms show ?thesis
      by (auto simp: history_defs step_connected_tcp_def fail_pending_ctl_eq)
  qed
qed

lemma send_or_reconnect_facts:
  assumes inv: "conn_inv t" "ct_state t = Connected" and wf: "from_pty msg"
    and self: "self = t\<lparr>ct_master := m, ct_pty_buf := b\<rparr>" "length b = MAX_MESSAGE_LEN"
    and msg: "pty_message A t i = [msg]" "device_message i = []" "taken i = []"
    and res: "send_or_reconnect self msg out = Done (st, t', es)"
  shows "step_facts A t i (case st of Some s \<Rightarrow> t'\<lparr>ct_state := s\<rparr> | None \<Rightarrow> t') es"
proof -
  obtain s tcp io where snd: "TcpBridge_send (ct_tcp self) msg out = (s, tcp, io)"
    by (cases "TcpBridge_send (ct_tcp self) msg out")
  have one: "sent_1 (Tcp (TcpSent msg)) = [msg]" using wf by (cases msg) auto
  from snd show ?thesis
    by (cases rule: TcpBridge_send_cases)
       (use one snd inv wf self msg res in \<open>auto simp: history_defs send_or_reconnect_def fail_pending_ctl_eq\<close>)
qed

text \<open>A data result of the terminal becomes exactly one message, and no slice is out of bounds.\<close>

lemma pty_data_message:
  assumes "AsyncPty_read A p buf its = Some (Ok (PtyData n), p', b, s)"
    and "list_all (readv_fits MAX_MESSAGE_LEN) its" and "length buf = MAX_MESSAGE_LEN"
  shows "slice_to b n = Some (take n b) \<and>
     DeviceMessage_from (take n b) = Some (Data (of_nat n) (take n b @ replicate (MAX_MESSAGE_LEN - n) 0))
     \<and> n \<le> 255 \<and> length b = MAX_MESSAGE_LEN"
proof -
  from assms read_data [OF assms(1)] have "n \<le> 255" "length b = 255"
    by (auto simp: MAX_MESSAGE_LEN_def)
  then show ?thesis by (simp add: DeviceMessage_from_eq MAX_MESSAGE_LEN_def min_def)
qed

lemma step_pty_facts:
  assumes inv: "conn_inv t" "ct_state t = Connected" and adm: "list_all (readv_fits MAX_MESSAGE_LEN) its"
    and res: "step_connected_pty A t its out = Done (st, t', es)"
  shows "step_facts A t (InConnected (CPty its out)) (case st of Some s \<Rightarrow> t'\<lparr>ct_state := s\<rparr> | None \<Rightarrow> t') es"
proof -
  let ?i = "InConnected (CPty its out)"
  from inv have buf: "length (ct_pty_buf t) = MAX_MESSAGE_LEN" by (simp add: conn_inv_def)
  obtain r m b s where rd: "AsyncPty_read A (ct_master t) (ct_pty_buf t) its = Some (r, m, b, s)"
    using res by (cases "AsyncPty_read A (ct_master t) (ct_pty_buf t) its") (auto simp: step_connected_pty_def)
  with adm buf have b: "length b = MAX_MESSAGE_LEN" using read_length by metis
  consider (Change) c where "r = Ok (PtyTermiosChange c)" | (Data) n where "r = Ok (PtyData n)"
    | (Ctl) c where "r = Ok (PtyControlMessage c)" | (Fail) e where "r = Err e"
    by (metis PtyReadResult.exhaust Result.exhaust)
  then show ?thesis
  proof cases
    case Change
    with rd res inv b show ?thesis
      by (intro send_or_reconnect_facts [where msg = "config_message c"])
         (auto simp: step_connected_pty_def pty_message_def config_message_def Let_def)
  next
    case Data
    with pty_data_message [OF _ adm buf] rd b have
      "slice_to b n = Some (take n b)" "n \<le> 255"
      "DeviceMessage_from (take n b) = Some (DeviceMessage.Data (of_nat n) (take n b @ replicate (MAX_MESSAGE_LEN - n) 0))"
      by blast+
    with Data rd res inv b show ?thesis
      by (intro send_or_reconnect_facts
            [where msg = "DeviceMessage.Data (of_nat n) (take n b @ replicate (MAX_MESSAGE_LEN - n) 0)"])
         (auto simp: step_connected_pty_def pty_message_def Let_def MAX_MESSAGE_LEN_def)
  next
    case Ctl
    with rd res inv b show ?thesis
      by (auto simp: history_defs step_connected_pty_def Let_def)
  next
    case Fail
    with rd res inv b show ?thesis
      by (auto simp: history_defs step_connected_pty_def Let_def)
  qed
qed

lemma next_backoff_eq: "d \<le> MAX_RECONNECT_BACKOFF \<Longrightarrow> next_backoff d = Some (min (d * 2) MAX_RECONNECT_BACKOFF)"
  by (simp add: next_backoff_def Duration_mul_def Duration_MAX_def MAX_RECONNECT_BACKOFF_def)

lemma step_reconnecting_facts:
  assumes inv: "conn_inv t" "ct_state t = Reconnecting d p"
    and res: "step_reconnecting t sels env = Done (st, t', es)"
  shows "step_facts A t (InReconnecting sels env) (case st of Some s \<Rightarrow> t'\<lparr>ct_state := s\<rparr> | None \<Rightarrow> t') es"
proof -
  obtain b es0 where loop: "reconnect_loop sels = Done (b, es0)"
    using inv(2) res by (auto simp: step_reconnecting_def split: outcome.splits)
  note eff = reconnect_loop_effects [OF loop]
  show ?thesis
  proof (cases b)
    case False
    with loop inv res eff show ?thesis
      by (cases p) (auto simp: history_defs step_reconnecting_def)
  next
    case True
    obtain s tcp where tc: "TcpBridge_try_connect (ct_tcp t) env = (s, tcp)"
      by (cases "TcpBridge_try_connect (ct_tcp t) env")
    from inv have d: "d \<le> MAX_RECONNECT_BACKOFF" by (simp add: conn_inv_def)
    from tc show ?thesis
      by (cases rule: TcpBridge_try_connect_cases; cases p)
         (use True tc loop inv res eff next_backoff_eq [OF d] in \<open>auto simp: history_defs step_reconnecting_def\<close>)
  qed
qed

lemma step_resyncing_facts:
  assumes inv: "conn_inv t" "ct_state t = Resyncing p"
    and res: "step_resyncing t sels = Done (st, t', es)"
  shows "step_facts A t (InResyncing sels) (case st of Some s \<Rightarrow> t'\<lparr>ct_state := s\<rparr> | None \<Rightarrow> t') es"
proof -
  have one: "sent_1 (Tcp (TcpSent p)) = [p]" using inv by (cases p) (auto simp: conn_inv_def)
  obtain b es0 where loop: "resync_loop sels = Done (b, es0)"
    using inv(2) res by (auto simp: step_resyncing_def split: outcome.splits)
  note eff = resync_loop_effects [OF loop]
  show ?thesis
  proof (cases b)
    case None
    with loop inv res eff show ?thesis
      by (auto simp: history_defs step_resyncing_def)
  next
    case (Some out)
    obtain s tcp io where snd: "TcpBridge_send (ct_tcp t) p out = (s, tcp, io)"
      by (cases "TcpBridge_send (ct_tcp t) p out")
    from snd show ?thesis
      by (cases rule: TcpBridge_send_cases)
         (use Some one snd loop inv res eff in \<open>auto simp: history_defs step_resyncing_def\<close>)
  qed
qed

section \<open>The loop\<close>

lemma step_step_facts:
  assumes inv: "conn_inv t" and open_: "ct_state t \<noteq> ShuttingDown" and adm: "admissible i"
    and res: "step A t i = Done (t', es)"
  shows "step_facts A t i t' es"
proof (cases i)
  case (InConnected c)
  with open_ res have st: "ct_state t = Connected"
    by (cases "ct_state t") (auto simp: step_def)
  with InConnected res obtain s u where r: "step_connected A t c = Done (s, u, es)"
    and t': "t' = (case s of Some s \<Rightarrow> u\<lparr>ct_state := s\<rparr> | None \<Rightarrow> u)"
    by (auto simp: step_def split: outcome.splits option.splits)
  show ?thesis
  proof (cases c)
    case CShutdown
    with InConnected r t' inv st show ?thesis
      by (auto simp: history_defs step_connected_def)
  next
    case (CPty its out)
    with InConnected r t' adm show ?thesis
      using step_pty_facts [OF inv st] by (simp add: step_connected_def)
  next
    case (CTcp got wr)
    with InConnected r t' show ?thesis
      using step_tcp_facts [OF inv st] by (simp add: step_connected_def)
  next
    case (CCtl req out)
    with InConnected r t' show ?thesis
      using step_ctl_facts [OF inv st] by (simp add: step_connected_def)
  qed
next
  case (InReconnecting sels env)
  with open_ res obtain d p where st: "ct_state t = Reconnecting d p"
    by (cases "ct_state t") (auto simp: step_def)
  with InReconnecting res obtain s u where r: "step_reconnecting t sels env = Done (s, u, es)"
    and t': "t' = (case s of Some s \<Rightarrow> u\<lparr>ct_state := s\<rparr> | None \<Rightarrow> u)"
    by (auto simp: step_def split: outcome.splits option.splits)
  with InReconnecting step_reconnecting_facts [OF inv st r] show ?thesis by simp
next
  case (InResyncing sels)
  with open_ res obtain p where st: "ct_state t = Resyncing p"
    by (cases "ct_state t") (auto simp: step_def)
  with InResyncing res obtain s u where r: "step_resyncing t sels = Done (s, u, es)"
    and t': "t' = (case s of Some s \<Rightarrow> u\<lparr>ct_state := s\<rparr> | None \<Rightarrow> u)"
    by (auto simp: step_def split: outcome.splits option.splits)
  with InResyncing step_resyncing_facts [OF inv st r] show ?thesis by simp
qed

text \<open>No slice is out of bounds, no \<open>unreachable!\<close> is reached and the backoff does not overflow.\<close>

lemma step_no_panic:
  assumes inv: "conn_inv t" and adm: "admissible i"
  shows "step A t i \<noteq> Panicked"
proof -
  have pty: "step_connected_pty A t its out \<noteq> Panicked" if "list_all (readv_fits MAX_MESSAGE_LEN) its" for its out
  proof -
    have snd: "send_or_reconnect self m out \<noteq> Panicked" for self :: "'a ConnectionTask" and m
      by (simp add: send_or_reconnect_def split: prod.split TcpBridgeStatus.split)
    have buf: "length (ct_pty_buf t) = MAX_MESSAGE_LEN" using inv by (simp add: conn_inv_def)
    show ?thesis
      using pty_data_message [OF _ that buf] snd
      by (fastforce simp: step_connected_pty_def Let_def split: option.splits Result.splits PtyReadResult.splits)
  qed
  have tcp: "step_connected_tcp t got wr \<noteq> Panicked" if "admissible (InConnected (CTcp got wr))" for got wr
  proof -
    obtain s u where nx: "TcpBridge_next (ct_tcp t) got = (s, u)" by (cases "TcpBridge_next (ct_tcp t) got")
    then show ?thesis
    proof (cases rule: TcpBridge_next_cases)
      case (Got m f)
      then obtain f' where "got = (Some (Ok m), f')" by (cases got) auto
      with that nx Got show ?thesis
        by (auto simp: step_connected_tcp_def slice_to_def Let_def MAX_MESSAGE_LEN_def split: DeviceMessage.splits Result.splits option.splits)
    next
      case (Lost e)
      with nx show ?thesis by (simp add: step_connected_tcp_def split: prod.split)
    qed
  qed
  have ctl: "step_connected_ctl t req out \<noteq> Panicked" for req out
    by (simp add: step_connected_ctl_def
        split: option.split ConnectionTaskRequest.split prod.split TcpBridgeStatus.split)
  have rec: "step_reconnecting t sels env \<noteq> Panicked" if "ct_state t = Reconnecting d p" for sels env d p
    using that inv next_backoff_eq [of d] reconnect_loop_no_panic [of sels]
    by (auto simp: step_reconnecting_def conn_inv_def
        split: outcome.splits prod.splits bool.splits TcpBridgeStatus.splits option.splits)
  have res: "step_resyncing t sels \<noteq> Panicked" if "ct_state t = Resyncing p" for sels p
    using that resync_loop_no_panic [of sels]
    by (auto simp: step_resyncing_def split: outcome.splits prod.splits TcpBridgeStatus.splits option.splits)
  show ?thesis
    using pty tcp ctl rec res adm
    by (cases i; cases "ct_state t")
       (auto simp: step_def step_connected_def split: outcome.splits option.splits connected_in.splits)
qed

lemma build_and_spawn_inv:
  "conn_inv (snd (build_and_spawn name addr port master path sh ch))"
  "unsent (snd (build_and_spawn name addr port master path sh ch)) = []"
  "pending_ctl (snd (build_and_spawn name addr port master path sh ch)) = []"
  "ct_name (snd (build_and_spawn name addr port master path sh ch)) = name"
  by (simp_all add: history_defs build_and_spawn_def TcpBridge_new_def Let_def)

text \<open>What a run of the loop does, from any task that satisfies the invariant.\<close>

lemma conn_run_facts:
  assumes "conn_run A t0 ins rs es t" and "conn_inv t0"
  shows "conn_inv t \<and> ct_name t = ct_name t0 \<and> notices es = [] \<and>
     (\<exists>lost. unsent t0 @ rs = sent es @ unsent t @ lost \<and> length lost \<le> 1 \<and>
        (ct_state t \<noteq> ShuttingDown \<longrightarrow> lost = [])) \<and>
     (\<exists>lost. concat (map payload (concat (map device_message ins))) = pty_written es @ lost \<and>
        (ct_state t \<noteq> ShuttingDown \<longrightarrow> lost = [])) \<and>
     mset (answered es @ pending_ctl t)
       = mset (pending_ctl t0 @ concat (map ctl_sender (concat (map taken ins)))) \<and>
     map fst (status_answers es) = concat (map status_sender (concat (map taken ins)))"
  using assms
proof (induction rule: conn_run.induct)
  case start
  then show ?case by simp
next
  case (step ins rs es t i t' es')
  then have "step_facts A t i t' es'" by (intro step_step_facts) simp_all
  note now = this [unfolded step_facts_def]
  from step have IH: "conn_inv t" "ct_state t \<noteq> ShuttingDown" "unsent t0 @ rs = sent es @ unsent t"
    "concat (map payload (concat (map device_message ins))) = pty_written es"
    "mset (answered es @ pending_ctl t)
       = mset (pending_ctl t0 @ concat (map ctl_sender (concat (map taken ins))))"
    by auto
  from now obtain lost where lost: "unsent t @ pty_message A t i = sent es' @ unsent t' @ lost"
    "length lost \<le> 1" "ct_state t' \<noteq> ShuttingDown \<longrightarrow> lost = []" by blast
  then have rs: "unsent t0 @ rs @ pty_message A t i = sent (es @ es') @ unsent t' @ lost"
    using IH(3) by (metis append.assoc sent_simps(3))
  from now obtain lost' where lost': "concat (map payload (device_message i)) = pty_written es' @ lost'"
    "ct_state t' \<noteq> ShuttingDown \<longrightarrow> lost' = []" by blast
  have ctl: "mset (answered (es @ es') @ pending_ctl t')
      = mset (pending_ctl t0 @ concat (map ctl_sender (concat (map taken (ins @ [i])))))"
    using now IH(5) by (simp add: ac_simps)
  show ?case
    using now step rs lost lost' IH(4) ctl by (auto simp: comp_def)
qed

text \<open>A run can also be grown at its front; and \<open>conn_task\<close> is a run followed by \<open>shutdown\<close>.\<close>

lemma conn_run_front:
  assumes "conn_run A t1 ins rs es t" and "\<not> should_close t0" and "admissible i"
    and "step A t0 i = Done (t1, es1)"
  shows "conn_run A t0 (i # ins) (pty_message A t0 i @ rs) (es1 @ es) t"
  using assms(1)
proof (induction rule: conn_run.induct)
  case start
  from conn_run.step [OF conn_run.start assms(2-4)] show ?case by simp
next
  case (step ins rs es t j t' es')
  from conn_run.step [OF step.IH step.hyps(2-4)] show ?case by simp
qed

declare conn_task.simps [simp del]

lemma conn_task_run:
  assumes "conn_task A t0 ins = Done (t', es')" and "list_all admissible ins"
  shows "\<exists>ins1 ins2 rs es t. ins = ins1 @ ins2 \<and> conn_run A t0 ins1 rs es t \<and>
     ct_state t = ShuttingDown \<and> fst (shutdown t) = t' \<and> es' = es @ snd (shutdown t)"
  using assms
proof (induction ins arbitrary: t0 es')
  case Nil
  then have "ct_state t0 = ShuttingDown" "shutdown t0 = (t', es')"
    by (simp_all add: conn_task.simps [of _ t0] split: if_splits)
  with conn_run.start [of A t0] show ?case by fastforce
next
  case (Cons i ins)
  show ?case
  proof (cases "ct_state t0 = ShuttingDown")
    case True
    with Cons.prems have "shutdown t0 = (t', es')" by (simp add: conn_task.simps [of _ t0])
    with True conn_run.start [of A t0] show ?thesis by fastforce
  next
    case False
    with Cons.prems(1) obtain t1 es1 es2 where st: "step A t0 i = Done (t1, es1)"
      and rest: "conn_task A t1 ins = Done (t', es2)" "es' = es1 @ es2"
      by (auto simp: conn_task.simps [of _ t0] split: outcome.splits)
    from Cons.IH [OF rest(1)] Cons.prems(2) obtain ins1 ins2 rs es t where
      run: "conn_run A t1 ins1 rs es t" and end_: "ins = ins1 @ ins2" "ct_state t = ShuttingDown"
        "fst (shutdown t) = t'" "es2 = es @ snd (shutdown t)" by auto
    from conn_run_front [OF run] False st Cons.prems(2) have
      "conn_run A t0 (i # ins1) (pty_message A t0 i @ rs) (es1 @ es) t" by simp
    with end_ rest(2) show ?thesis by (metis append.assoc append_Cons)
  qed
qed

interpretation conn: task_loop "step A" admissible conn_inv for A
proof
  show "conn_inv t'" if "conn_inv t" "admissible i" "step A t i = Done (t', es)" for t t' :: "'a ConnectionTask" and i es
  proof (cases "ct_state t = ShuttingDown")
    case True
    with that show ?thesis by (auto simp: step_def)
  next
    case False
    from step_step_facts [OF that(1) this that(2,3)] show ?thesis by (simp add: step_facts_def)
  qed
qed (rule step_no_panic)

lemma conn_task_panics:
  "conn_task A t ins = Panicked \<Longrightarrow> \<exists>pre post. ins = pre @ post \<and> conn.run A t pre = Panicked"
proof (induction ins arbitrary: t)
  case Nil
  then show ?case by (simp add: conn_task.simps [of _ t] split: if_splits)
next
  case (Cons i ins)
  show ?case
  proof (cases "step A t i")
    case (Done r)
    with Cons.prems have "conn_task A (fst r) ins = Panicked"
      by (auto simp: conn_task.simps [of _ t] split: if_splits outcome.splits prod.splits)
    from Cons.IH [OF this] obtain pre post where "ins = pre @ post" "conn.run A (fst r) pre = Panicked" by blast
    moreover from this(2) Done have "conn.run A t (i # pre) = Panicked" by (cases r) simp
    ultimately show ?thesis by (metis append_Cons)
  next
    case Panicked
    then show ?thesis by (intro exI [of _ "[i]"] exI [of _ ins]) simp
  qed (use Cons.prems in \<open>simp add: conn_task.simps [of _ t] split: if_splits\<close>)
qed

lemma shutdown_eq:
  "shutdown t = (t\<lparr>ct_pending_hw_ctl := None\<rparr>,
     map (\<lambda>tx. ReplyCtl tx (Err Unavailable)) (pending_ctl t) @ [Notify (ConnectionClosed (ct_name t))])"
  by (simp add: shutdown_def fail_pending_ctl_eq)

inductive_simps conn_run_Nil: "conn_run A t0 [] rs es t"

inductive_cases conn_run_snocE: "conn_run A t0 (ins @ [i]) rs es t"

lemma conn_run_deterministic:
  assumes "conn_run A t0 ins rs es t" and "conn_run A t0 ins rs2 es2 t2"
  shows "rs2 = rs \<and> es2 = es \<and> t2 = t"
  using assms
proof (induction arbitrary: rs2 es2 t2 rule: conn_run.induct)
  case start
  then show ?case by (simp add: conn_run_Nil)
next
  case (step ins rs es t i t' es')
  from step.prems obtain rs3 es3 t3 es4 where p: "conn_run A t0 ins rs3 es3 t3"
    "rs2 = rs3 @ pty_message A t3 i" "es2 = es3 @ es4" "Connection_Task.step A t3 i = Done (t2, es4)"
    by (auto elim: conn_run_snocE)
  from step.IH [OF p(1)] p step.hyps show ?case by simp
qed

lemma run_log_conn_run:
  "run_log A t ins = Some (rs, es, u) \<Longrightarrow> list_all admissible ins \<Longrightarrow> conn_run A t ins rs es u"
proof (induction ins arbitrary: t rs es)
  case Nil
  then show ?case by (simp add: conn_run.start)
next
  case (Cons i ins)
  then obtain t1 es1 rs2 es2 where "step A t i = Done (t1, es1)" "\<not> should_close t"
    "run_log A t1 ins = Some (rs2, es2, u)" "rs = pty_message A t i @ rs2" "es = es1 @ es2"
    by (auto split: if_splits outcome.splits)
  with Cons conn_run_front [of A t1 ins rs2 es2 u t i es1] show ?case by simp
qed

lemma demo_run:
  "conn_run linux_termios demo_task demo_inputs [Data 1 (7 # replicate 254 0)] demo_effects demo_end"
proof (rule run_log_conn_run)
  show "run_log linux_termios demo_task demo_inputs = Some ([Data 1 (7 # replicate 254 0)], demo_effects, demo_end)"
    by code_simp
  show "list_all admissible demo_inputs" by code_simp
qed

lemma demo_conn_task:
  "conn_task linux_termios demo_task (demo_inputs @ [InConnected CShutdown])
     = Done (demo_end\<lparr>ct_state := ShuttingDown\<rparr>, demo_effects @ [Notify (ConnectionClosed (lit ''a''))])"
  by code_simp

lemma reconnect_loop_refuses:
  "reconnect_loop sels = Done (b, es) \<Longrightarrow> ReplyCtl tx (Ok r) \<notin> set es \<and> Tcp x \<notin> set es"
  by (induction sels arbitrary: es rule: reconnect_loop.induct) (auto split: outcome.splits prod.splits)

lemma resync_loop_refuses:
  "resync_loop sels = Done (b, es) \<Longrightarrow> ReplyCtl tx (Ok r) \<notin> set es \<and> Tcp x \<notin> set es"
  by (induction sels arbitrary: es rule: resync_loop.induct) (auto split: outcome.splits prod.splits)

lemma reconnect_loop_shutdown:
  "\<exists>es. reconnect_loop (map (\<lambda>r. WCtl (Some r)) reqs @ [WShutdown]) = Done (False, es)"
proof (induction reqs)
  case (Cons r reqs)
  then show ?case by (cases r) auto
qed simp

lemma resync_loop_shutdown:
  "\<exists>es. resync_loop (map (\<lambda>r. RCtl (Some r)) reqs @ [RShutdown]) = Done (None, es)"
proof (induction reqs)
  case (Cons r reqs)
  then show ?case by (cases r) auto
qed simp

lemma taken_shutdown_input [simp]:
  "wait_taken (map (\<lambda>r. WCtl (Some r)) reqs @ [WShutdown]) = reqs"
  "resync_taken (map (\<lambda>r. RCtl (Some r)) reqs @ [RShutdown]) = reqs"
  by (induction reqs) simp_all

lemma shutdown_step:
  fixes t :: "'f ConnectionTask"
  assumes "ct_state t \<noteq> ShuttingDown"
  shows "\<exists>t' es'. step A t (shutdown_input (ct_state t) reqs env) = Done (t', es') \<and> ct_state t' = ShuttingDown"
proof -
  from reconnect_loop_shutdown obtain es where
    "reconnect_loop (map (\<lambda>r. WCtl (Some r)) reqs @ [WShutdown]) = Done (False, es)" by blast
  moreover from resync_loop_shutdown obtain es' where
    "resync_loop (map (\<lambda>r. RCtl (Some r)) reqs @ [RShutdown :: 'f resync_sel]) = Done (None, es')" by blast
  ultimately show ?thesis
    using assms
    by (cases "ct_state t")
       (auto simp: step_def step_connected_def step_reconnecting_def step_resyncing_def)
qed

lemma step_ok_reply:
  assumes res: "step A t i = Done (t', es)" and ok: "ReplyCtl tx (Ok r) \<in> set es"
  shows "ct_pending_hw_ctl t = Some tx \<and> ct_pending_hw_ctl t' = None \<and>
    (\<exists>f wr. i = InConnected (CTcp (Some (Ok (ControlRes r)), f) wr))"
  using assms
  by (auto simp: task_defs fail_pending_ctl_def TcpBridge_next_def Let_def
      dest: reconnect_loop_refuses resync_loop_refuses
      split: outcome.splits option.splits ConnState.splits step_in.splits connected_in.splits Result.splits
        PtyReadResult.splits prod.splits TcpBridgeStatus.splits DeviceMessage.splits bool.splits
        ConnectionTaskRequest.splits if_splits)

lemma from_pty_not_ctl [simp]: "from_pty m \<Longrightarrow> m \<noteq> ControlReq c"
  by auto

lemma send_or_reconnect_sent:
  "send_or_reconnect self msg out = Done (st, self', es) \<Longrightarrow> Tcp (TcpSent m) \<in> set es \<Longrightarrow> m = msg"
  by (auto simp: send_or_reconnect_def TcpBridge_send_def fail_pending_ctl_eq
      split: option.splits prod.splits Result.splits)

lemma step_pty_sent:
  assumes "step_connected_pty A t its out = Done (st, t', es)" and "Tcp (TcpSent m) \<in> set es"
  shows "m \<noteq> ControlReq c"
  using assms
  by (auto simp: step_connected_pty_def Let_def config_message_def DeviceMessage_from_eq
      dest!: send_or_reconnect_sent split: option.splits Result.splits PtyReadResult.splits)

lemma step_ctl_sent:
  assumes res: "step A t i = Done (t', es)" and inv: "conn_inv t" and m: "Tcp (TcpSent (ControlReq c)) \<in> set es"
  shows "ct_pending_hw_ctl t = None \<and> (\<exists>tx. taken i = [HardwareControl c tx] \<and> ct_pending_hw_ctl t' = Some tx)"
proof (cases "ct_state t")
  case Connected
  then show ?thesis
    using res m step_pty_sent [of A t _ _ _ _ es "ControlReq c" c]
    by (auto simp: step_def step_connected_def step_connected_tcp_def step_connected_ctl_def fail_pending_ctl_eq
        TcpBridge_send_def Let_def
        split: step_in.splits connected_in.splits outcome.splits option.splits prod.splits Result.splits
          TcpBridgeStatus.splits DeviceMessage.splits ConnectionTaskRequest.splits if_splits)
next
  case (Reconnecting d p)
  with res m reconnect_loop_refuses show ?thesis
    by (fastforce simp: step_def step_reconnecting_def
        split: step_in.splits outcome.splits option.splits prod.splits TcpBridgeStatus.splits bool.splits)
next
  case (Resyncing p)
  with inv have "p \<noteq> ControlReq c" by (auto simp: conn_inv_def)
  with Resyncing res m resync_loop_refuses show ?thesis
    by (fastforce simp: step_def step_resyncing_def TcpBridge_send_def
        split: step_in.splits outcome.splits option.splits prod.splits TcpBridgeStatus.splits Result.splits)
next
  case ShuttingDown
  with res m show ?thesis by (simp add: step_def)
qed

lemma step_failed_attempt:
  assumes inv: "conn_inv t" and st: "ct_state t = Reconnecting d p" and fail: "failed_attempt i"
  shows "\<exists>t' es. step A t i = Done (t', es) \<and> admissible i \<and> pty_message A t i = [] \<and>
     ct_state t' = Reconnecting (min (d * 2) 5000) p"
proof -
  from fail obtain sels env es where i: "i = InReconnecting sels env" "reconnect_loop sels = Done (True, es)"
    and env: "case (ce_connect env, ce_nodelay env) of (Ok _, Ok _) \<Rightarrow> False | _ \<Rightarrow> True"
    by (cases i rule: failed_attempt.cases) (auto split: outcome.splits bool.splits)
  from inv st have "d \<le> MAX_RECONNECT_BACKOFF" "tb_framed (ct_tcp t) = None" by (simp_all add: conn_inv_def)
  with i env st show ?thesis
    by (auto simp: step_def step_reconnecting_def TcpBridge_try_connect_def next_backoff_eq pty_message_def
        MAX_RECONNECT_BACKOFF_def split: Result.splits)
qed

section \<open>Properties\<close>

abbreviation (input) spawned where
  "spawned name addr port master path sh ch \<equiv> snd (build_and_spawn name addr port master path sh ch)"

text \<open>The invariant of the task: in every state a run reaches, the state machine, the TCP stream, the
  pending control request and the held message fit together. There is a stream exactly while connected
  or resyncing, no request is pending while reconnecting or resyncing, the backoff is between 100 ms and
  5 s, the held message is one that came from the terminal, and the buffer has its length.\<close>

lemma conn_invariant:
  assumes "conn_run A (spawned name addr port master path sh ch) ins rs es t"
  shows "conn_inv t"
  using conn_run_facts [OF assms build_and_spawn_inv(1)] by blast

text \<open>C1. From the terminal to the device: the messages read from the terminal are the messages sent, in
  order and each once, followed by the one the task still holds for the next connection, if any; only a
  task that shuts down may drop a message, and at most one.\<close>

theorem conn_pty_to_device_in_order:
  assumes "conn_run A (spawned name addr port master path sh ch) ins rs es t"
  shows "\<exists>lost. rs = sent es @ unsent t @ lost \<and> length (unsent t) \<le> 1 \<and> length lost \<le> 1 \<and>
     (ct_state t \<noteq> ShuttingDown \<longrightarrow> lost = [])"
proof -
  have "length (unsent t) \<le> 1" by (simp add: unsent_def split: ConnState.split option.split)
  with conn_run_facts [OF assms build_and_spawn_inv(1)] show ?thesis by (auto simp: build_and_spawn_inv(2))
qed

theorem conn_pty_to_device_in_order_witness:
  "\<exists>lost. [Data 1 (7 # replicate 254 0)] = sent demo_effects @ unsent demo_end @ lost \<and> lost = []"
  using conn_pty_to_device_in_order [OF demo_run [unfolded demo_task_def]]
  by (simp add: demo_end_def)





text \<open>C14. The task never panics: no slice index is out of range, no \<open>unreachable!\<close> is reached and the
  backoff arithmetic does not overflow, whatever the terminal, the device, the network and the daemon do.\<close>

theorem conn_task_no_panic:
  assumes "list_all admissible ins"
  shows "conn_task A (spawned name addr port master path sh ch) ins \<noteq> Panicked"
proof
  assume "conn_task A (spawned name addr port master path sh ch) ins = Panicked"
  then obtain pre post where "ins = pre @ post" "conn.run A (spawned name addr port master path sh ch) pre = Panicked"
    using conn_task_panics by blast
  moreover from this(1) assms have "list_all admissible pre" by simp
  ultimately show False using conn.run_safe [OF build_and_spawn_inv(1) \<open>list_all admissible pre\<close>] by blast
qed

theorem conn_task_no_panic_witness:
  "conn_task linux_termios demo_task (demo_inputs @ [InConnected CShutdown]) \<noteq> Panicked"
  unfolding demo_task_def by (rule conn_task_no_panic) code_simp



text \<open>A status request is answered with the truth at that moment: connected exactly when the state
  machine is in \<open>Connected\<close>, which it is only with a TCP stream.\<close>

lemma conn_status_truthful:
  assumes "conn_run A (spawned name addr port master path sh ch) ins rs es t" and "ct_state t \<noteq> ShuttingDown"
    and "admissible i" and "step A t i = Done (t', es')"
  shows "status_answers es' = map (\<lambda>tx. (tx, ct_state t = Connected)) (concat (map status_sender (taken i)))
     \<and> (ct_state t = Connected \<longrightarrow> tb_framed (ct_tcp t) \<noteq> None)"
proof -
  from conn_run_facts [OF assms(1) build_and_spawn_inv(1)] have inv: "conn_inv t" by blast
  from step_step_facts [OF inv assms(2-4)] have "status_answers es'
      = map (\<lambda>tx. (tx, ct_state t = Connected)) (concat (map status_sender (taken i)))"
    by (simp add: step_facts_def)
  with inv show ?thesis by (auto simp: conn_inv_def)
qed

text \<open>C15. Control requests and answers match: a positive answer goes to the caller whose request is
  pending, carries the device's own response and clears the request; a control request is sent to the
  device only when none is pending, and its caller becomes the pending one.\<close>

theorem conn_control_matching:
  assumes "conn_run A (spawned name addr port master path sh ch) ins rs es t"
    and "step A t i = Done (t', es')"
  shows "(\<forall>tx r. ReplyCtl tx (Ok r) \<in> set es' \<longrightarrow>
       ct_pending_hw_ctl t = Some tx \<and> ct_pending_hw_ctl t' = None \<and>
       (\<exists>f wr. i = InConnected (CTcp (Some (Ok (ControlRes r)), f) wr)))
     \<and> (\<forall>c. Tcp (TcpSent (ControlReq c)) \<in> set es' \<longrightarrow>
       ct_pending_hw_ctl t = None \<and> (\<exists>tx. taken i = [HardwareControl c tx] \<and> ct_pending_hw_ctl t' = Some tx))"
proof -
  from conn_run_facts [OF assms(1) build_and_spawn_inv(1)] have "conn_inv t" by blast
  then show ?thesis using step_ok_reply [OF assms(2)] step_ctl_sent [OF assms(2)] by blast
qed

theorem conn_control_matching_witness:
  "ct_pending_hw_ctl demo_end = None \<and>
   (\<exists>tx. taken (InConnected (CCtl (Some (HardwareControl CtlReset 5)) (Ok (), ()))) = [HardwareControl CtlReset tx] \<and>
      ct_pending_hw_ctl (demo_end\<lparr>ct_pending_hw_ctl := Some 5\<rparr>) = Some tx)"
proof -
  let ?i = "InConnected (CCtl (Some (HardwareControl CtlReset 5)) (Ok (), ()))"
  have "step linux_termios demo_end ?i
      = Done (demo_end\<lparr>ct_pending_hw_ctl := Some 5\<rparr>, [Tcp (TcpSent (ControlReq CtlReset))])"
    by code_simp
  from conjunct2 [OF conn_control_matching [OF demo_run [unfolded demo_task_def] this], rule_format, of CtlReset]
  show ?thesis by (meson list.set_intros(1))
qed

text \<open>The backoff: from the first lost connection on, after \<open>k\<close> failed attempts in a row the task
  waits \<open>100 * 2^k\<close> milliseconds, at most five seconds, and still holds the same message.\<close>

lemma conn_backoff_doubles:
  assumes "conn_run A (spawned name addr port master path sh ch) ins rs es t"
    and "ct_state t = Reconnecting INITIAL_RECONNECT_BACKOFF p" and "list_all failed_attempt fails"
  shows "\<exists>es' t'. conn_run A (spawned name addr port master path sh ch) (ins @ fails) rs (es @ es') t' \<and>
     ct_state t' = Reconnecting (min (100 * 2 ^ length fails) 5000) p"
  using assms(3)
proof (induction fails rule: rev_induct)
  case Nil
  with assms(1,2) show ?case
    by (intro exI [of _ "[]"] exI [of _ t]) (simp add: INITIAL_RECONNECT_BACKOFF_def)
next
  case (snoc i fails)
  then obtain es' t' where run: "conn_run A (spawned name addr port master path sh ch) (ins @ fails) rs (es @ es') t'"
    and st: "ct_state t' = Reconnecting (min (100 * 2 ^ length fails) 5000) p" by auto
  from conn_run_facts [OF run build_and_spawn_inv(1)] have inv: "conn_inv t'" by blast
  from snoc.prems have "failed_attempt i" by simp
  from step_failed_attempt [OF inv st this, of A] obtain t'' es'' where
    step: "step A t' i = Done (t'', es'')" "admissible i" "pty_message A t' i = []"
    and st'': "ct_state t'' = Reconnecting (min (min (100 * 2 ^ length fails) 5000 * 2) 5000) p" by blast
  have "min (min (100 * 2 ^ length fails) 5000 * 2) 5000 = min (100 * 2 ^ length (fails @ [i])) (5000 :: nat)"
    by (simp add: min_def)
  with conn_run.step [OF run _ step(2,1)] step(3) st st'' show ?case by auto
qed

end
