(* ===== verification/Daemon_System.thy ===== *)
theory Daemon_System
  imports Daemon_Main Connection_Inv
begin

text \<open>
  The daemon as a whole: the main loop, the tasks of the connections and the event channel between them, as
  a step relation. A step lets a client's command into the event channel (\<open>mpsc::channel(128)\<close>), lets the
  main loop handle the event at its head, lets one connection task make a step, or lets a task that is
  shutting down announce its end and go away.

  A task is known by the shutdown channel it was made with; the channels of new connections are fresh.
  A task can take the shutdown branch of a \<open>select!\<close> only after the signal was sent. What the tasks
  answer to status and control requests of the main loop is not restricted here.
\<close>

section \<open>States and steps\<close>

record 'f system =
  sy_state :: State
  sy_tasks :: "(sender \<times> 'f ConnectionTask) list"
  sy_signalled :: "sender list"
  sy_queue :: "DaemonEvent list"
  sy_fresh :: sender

definition EVENT_CAPACITY :: nat where
  "EVENT_CAPACITY = 128"

definition system_init :: "'f system" where
  "system_init = \<lparr>sy_state = State_default, sy_tasks = [], sy_signalled = [], sy_queue = [], sy_fresh = 0\<rparr>"

fun spawned_1 :: "'f daemon_effect \<Rightarrow> 'f ConnectionTask list" where
  "spawned_1 (Spawn t) = [t]"
| "spawned_1 _ = []"

fun signalled_1 :: "'f daemon_effect \<Rightarrow> sender list" where
  "signalled_1 (Handle (SignalShutdown tx)) = [tx]"
| "signalled_1 _ = []"

definition spawned_tasks :: "'f daemon_effect list \<Rightarrow> 'f ConnectionTask list" where
  "spawned_tasks es = concat (map spawned_1 es)"

definition signals :: "'f daemon_effect list \<Rightarrow> sender list" where
  "signals es = concat (map signalled_1 es)"

text \<open>Whether a step of a task takes the shutdown branch.\<close>

fun takes_shutdown :: "'f step_in \<Rightarrow> bool" where
  "takes_shutdown (InConnected CShutdown) = True"
| "takes_shutdown (InReconnecting sels _) = (WShutdown \<in> set sels)"
| "takes_shutdown (InResyncing sels) = (RShutdown \<in> set sels)"
| "takes_shutdown _ = False"

text \<open>The channels of a connection that is made are fresh and then used up.\<close>

definition next_fresh :: "'f system \<Rightarrow> sender \<Rightarrow> 'f daemon_effect list \<Rightarrow> sender" where
  "next_fresh S ch es = (if spawned_tasks es = [] then sy_fresh S else Suc ch)"

inductive sys_step :: "termios_api \<Rightarrow> 'f system \<Rightarrow> 'f system \<Rightarrow> bool" for A where
  command: "length (sy_queue S) < EVENT_CAPACITY \<Longrightarrow>
     sys_step A S (S\<lparr>sy_queue := sy_queue S @ [CliCommand msg tx]\<rparr>)"
| main: "sy_queue S = ev # evs \<Longrightarrow> ae_shutdown_ch (he_add env) = ch \<Longrightarrow> sy_fresh S \<le> ch \<Longrightarrow>
     main_step A (sy_state S) (Event ev env) = Done (s', es) \<Longrightarrow>
     sys_step A S \<lparr>sy_state = s',
       sy_tasks = sy_tasks S @ map (Pair ch) (spawned_tasks es),
       sy_signalled = sy_signalled S @ signals es, sy_queue = evs, sy_fresh = next_fresh S ch es\<rparr>"
| task: "sy_tasks S = pre @ (tx, t) # post \<Longrightarrow> \<not> should_close t \<Longrightarrow> admissible i \<Longrightarrow>
     (takes_shutdown i \<Longrightarrow> tx \<in> set (sy_signalled S)) \<Longrightarrow> step A t i = Done (t', es) \<Longrightarrow>
     sys_step A S (S\<lparr>sy_tasks := pre @ (tx, t') # post\<rparr>)"
| close: "sy_tasks S = pre @ (tx, t) # post \<Longrightarrow> should_close t \<Longrightarrow> length (sy_queue S) < EVENT_CAPACITY \<Longrightarrow>
     sys_step A S (S\<lparr>sy_tasks := pre @ post, sy_queue := sy_queue S @ notices (snd (shutdown t))\<rparr>)"

text \<open>The same steps as a function, for the examples: which step, and with which input.\<close>

datatype 'f sys_act =
    ActCommand DaemonRequest sender
  | ActMain handler_env
  | ActTask nat "'f step_in"
  | ActClose nat

definition sys_exec :: "termios_api \<Rightarrow> 'f system \<Rightarrow> 'f sys_act \<Rightarrow> 'f system option" where
  "sys_exec A S a =
     (case a of
        ActCommand msg tx \<Rightarrow>
          if length (sy_queue S) < EVENT_CAPACITY
          then Some (S\<lparr>sy_queue := sy_queue S @ [CliCommand msg tx]\<rparr>) else None
      | ActMain env \<Rightarrow>
          (case sy_queue S of
             [] \<Rightarrow> None
           | ev # evs \<Rightarrow>
               if ae_shutdown_ch (he_add env) < sy_fresh S then None
               else (case main_step A (sy_state S) (Event ev env) of
                       Done (s', es) \<Rightarrow>
                         Some \<lparr>sy_state = s',
                           sy_tasks = sy_tasks S @ map (Pair (ae_shutdown_ch (he_add env))) (spawned_tasks es),
                           sy_signalled = sy_signalled S @ signals es, sy_queue = evs,
                           sy_fresh = next_fresh S (ae_shutdown_ch (he_add env)) es\<rparr>
                     | _ \<Rightarrow> None))
      | ActTask k i \<Rightarrow>
          if k < length (sy_tasks S) \<and> \<not> should_close (snd (sy_tasks S ! k)) \<and> admissible i \<and>
             (takes_shutdown i \<longrightarrow> fst (sy_tasks S ! k) \<in> set (sy_signalled S))
          then (case step A (snd (sy_tasks S ! k)) i of
                  Done (t', es) \<Rightarrow> Some (S\<lparr>sy_tasks := (sy_tasks S)[k := (fst (sy_tasks S ! k), t')]\<rparr>)
                | _ \<Rightarrow> None)
          else None
      | ActClose k \<Rightarrow>
          if k < length (sy_tasks S) \<and> should_close (snd (sy_tasks S ! k)) \<and> length (sy_queue S) < EVENT_CAPACITY
          then Some (S\<lparr>sy_tasks := take k (sy_tasks S) @ drop (Suc k) (sy_tasks S),
                       sy_queue := sy_queue S @ notices (snd (shutdown (snd (sy_tasks S ! k))))\<rparr>)
          else None)"

fun sys_execs :: "termios_api \<Rightarrow> 'f system \<Rightarrow> 'f sys_act list \<Rightarrow> 'f system option" where
  "sys_execs A S [] = Some S"
| "sys_execs A S (a # as) = (case sys_exec A S a of None \<Rightarrow> None | Some S' \<Rightarrow> sys_execs A S' as)"

abbreviation sys_reach :: "termios_api \<Rightarrow> 'f system \<Rightarrow> bool" where
  "sys_reach A \<equiv> (sys_step A)\<^sup>*\<^sup>* system_init"

section \<open>Invariant\<close>

text \<open>Every live task belongs to a registered connection or has been told to stop.\<close>

definition no_orphans :: "'f system \<Rightarrow> bool" where
  "no_orphans S \<longleftrightarrow>
     (\<forall>p \<in> set (sy_tasks S). fst p \<in> set (sy_signalled S) \<or>
        (\<exists>c \<in> set (conns (sy_state S)). cn_shutdown_tx c = fst p \<and> cn_name c = ct_name (snd p)))"

text \<open>
  Every registered connection has its task, not told to stop, or the notice of its end is in the channel.
\<close>

definition no_zombies :: "'f system \<Rightarrow> bool" where
  "no_zombies S \<longleftrightarrow>
     (\<forall>c \<in> set (conns (sy_state S)). cn_shutdown_tx c \<notin> set (sy_signalled S) \<and>
        ((\<exists>p \<in> set (sy_tasks S). fst p = cn_shutdown_tx c \<and> ct_name (snd p) = cn_name c)
         \<or> ConnectionClosed (cn_name c) \<in> set (sy_queue S)))"

text \<open>Channels are used once.\<close>

definition ids_fresh :: "'f system \<Rightarrow> bool" where
  "ids_fresh S \<longleftrightarrow>
     (\<forall>p \<in> set (sy_tasks S). fst p < sy_fresh S) \<and> distinct (map fst (sy_tasks S)) \<and>
     (\<forall>c \<in> set (conns (sy_state S)). cn_shutdown_tx c < sy_fresh S) \<and>
     distinct (map cn_shutdown_tx (conns (sy_state S))) \<and> (\<forall>tx \<in> set (sy_signalled S). tx < sy_fresh S)"

definition sys_inv :: "'f system \<Rightarrow> bool" where
  "sys_inv S \<longleftrightarrow> State_inv (sy_state S) \<and> no_orphans S \<and> no_zombies S \<and> ids_fresh S \<and>
     (\<forall>p \<in> set (sy_tasks S). conn_inv (snd p)) \<and> length (sy_queue S) \<le> EVENT_CAPACITY"

section \<open>What one event does\<close>

lemma spawned_tasks_simps [simp]:
  "spawned_tasks [] = []" "spawned_tasks (e # es) = spawned_1 e @ spawned_tasks es"
  "spawned_tasks (es @ fs) = spawned_tasks es @ spawned_tasks fs"
  "spawned_tasks (map Handle hs) = []" "spawned_tasks (map PtyCall cs) = []"
proof -
  show "spawned_tasks (map Handle hs) = []" by (induction hs) (simp_all add: spawned_tasks_def)
  show "spawned_tasks (map PtyCall cs) = []" by (induction cs) (simp_all add: spawned_tasks_def)
qed (simp_all add: spawned_tasks_def)

lemma signals_simps [simp]:
  "signals [] = []" "signals (e # es) = signalled_1 e @ signals es"
  "signals (es @ fs) = signals es @ signals fs" "signals (map PtyCall cs) = []"
proof -
  show "signals (map PtyCall cs) = []" by (induction cs) (simp_all add: signals_def)
qed (simp_all add: signals_def)

text \<open>The requests that \<open>list\<close> and \<open>reset\<close> put into the channels are no shutdown signals.\<close>

lemma list_loop_signals: "list_loop cs envs = Some (l, hs) \<Longrightarrow> signals (map Handle hs) = []"
proof (induction cs envs arbitrary: l hs rule: list_loop.induct)
  case (3 c cs env envs)
  then show ?case by (auto simp: get_status_def split: prod.splits Result.splits)
qed simp_all

lemma reset_signals:
  "State_send_hardware_ctl s n ctl env = (r, hs) \<Longrightarrow> signals (map Handle hs) = []"
  by (auto simp: State_send_hardware_ctl_def Connection_send_hardware_ctl_def
      split: option.splits prod.splits Result.splits)

lemma handle_effects [consumes 1, case_names Added Removed Same]:
  assumes "handle_daemon_request A s msg env = Done (r, s', es)"
  obtains conn task where "\<not> State_exists s (cn_name conn)" "s' = State_add s conn" "spawned_tasks es = [task]"
      "signals es = []" "cn_shutdown_tx conn = ae_shutdown_ch (he_add env)" "ct_name task = cn_name conn" "conn_inv task"
      "pending_ctl task = []"
    | c n where "msg = ReqRemove n" "State_remove s n = Some (True, s', [SignalShutdown (cn_shutdown_tx c)])"
        "mset (conns s) = mset (c # conns s')" "cn_name c = n"
        "spawned_tasks es = []" "signals es = [cn_shutdown_tx c]"
    | "s' = s" "spawned_tasks es = []" "signals es = []"
proof (cases msg)
  case (ReqAdd name addr port)
  with assms have "handle_add A s name addr port (he_add env) = (r, s', es)"
    by (simp add: handle_daemon_request_def)
  then show thesis
  proof (cases rule: handle_add_cases)
    case (Added path master pty calls conn task)
    have "task = snd (build_and_spawn name addr port pty path (ae_shutdown_ch (he_add env)) (ae_ctl_ch (he_add env)))"
      by (simp add: Added(7))
    then have "conn_inv task" "ct_name task = name" "pending_ctl task = []" by (simp_all add: build_and_spawn_inv)
    with Added that(1) [of conn task] show thesis by (simp add: build_and_spawn_conn [OF Added(7)])
  next
    case Refused
    with that(3) show thesis by simp
  qed
next
  case (ReqRemove n)
  obtain b s1 hs where rm: "State_remove s n = Some (b, s1, hs)" using State_remove_total by blast
  show thesis
  proof (cases b)
    case True
    with rm obtain c where c: "cn_name c = n" "mset (conns s) = mset (c # conns s1)"
      "hs = [SignalShutdown (cn_shutdown_tx c)]" using State_remove_True [of s n s1 hs] by auto
    from assms ReqRemove rm True have "s1 = s'" "es = map Handle hs"
      by (simp_all add: handle_daemon_request_def)
    with c rm True that(2) [of n c] ReqRemove show thesis by simp
  next
    case False
    with State_remove_False [of s n s1 hs] rm assms ReqRemove that(3) show thesis
      by (simp add: handle_daemon_request_def)
  qed
next
  case ReqList
  with assms obtain l hs where l: "list_loop (conns s) (he_list env) = Some (l, hs)" "s' = s" "es = map Handle hs"
    by (auto simp: handle_daemon_request_def State_list_def split: option.splits)
  show thesis by (rule that(3)) (simp_all add: l(2,3) list_loop_signals [OF l(1)])
next
  case (ReqReset n)
  obtain r hs where h: "State_send_hardware_ctl s n CtlReset (he_reset env) = (r, hs)"
    by (cases "State_send_hardware_ctl s n CtlReset (he_reset env)")
  with assms ReqReset have "s' = s" "es = map Handle hs"
    by (auto simp: handle_daemon_request_def split: option.splits Result.splits DeviceControlResponse.splits)
  then show thesis by (intro that(3)) (simp_all add: reset_signals [OF h])
qed

lemma main_effects [consumes 1, case_names Added Removed Same]:
  assumes "main_step A s (Event ev env) = Done (s', es)"
  obtains conn task where "\<not> State_exists s (cn_name conn)" "s' = State_add s conn" "spawned_tasks es = [task]"
      "signals es = []" "cn_shutdown_tx conn = ae_shutdown_ch (he_add env)" "ct_name task = cn_name conn" "conn_inv task"
      "\<forall>n. ev \<noteq> ConnectionClosed n" "pending_ctl task = []"
    | c where "mset (conns s) = mset (c # conns s')" "spawned_tasks es = []" "signals es = [cn_shutdown_tx c]"
        "\<forall>n. ev = ConnectionClosed n \<longrightarrow> cn_name c = n"
    | "s' = s" "spawned_tasks es = []" "signals es = []"
        "\<forall>n. ev = ConnectionClosed n \<longrightarrow> (\<forall>c \<in> set (conns s). cn_name c \<noteq> n)"
proof (cases ev)
  case (CliCommand msg tx)
  with assms obtain r es0 where h: "handle_daemon_request A s msg env = Done (r, s', es0)"
    and es: "es = es0 @ [Respond tx r]"
    by (auto simp: main_step_def split: outcome.splits)
  from h show thesis
    by (cases rule: handle_effects) (use that es CliCommand in \<open>auto\<close>)
next
  case (ConnectionClosed n)
  obtain b s1 hs where rm: "State_remove s n = Some (b, s1, hs)" using State_remove_total by blast
  with assms ConnectionClosed have eq: "s1 = s'" "es = map Handle hs" by (auto simp: main_step_def)
  show thesis
  proof (cases b)
    case True
    with rm obtain c where "cn_name c = n" "mset (conns s) = mset (c # conns s1)"
      "hs = [SignalShutdown (cn_shutdown_tx c)]" using State_remove_True [of s n s1 hs] by auto
    with eq that(2) [of c] ConnectionClosed show thesis by simp
  next
    case False
    with State_remove_False [of s n s1 hs] rm eq that(3) ConnectionClosed show thesis by simp
  qed
qed

section \<open>The invariant is kept\<close>

lemma main_keeps_orphans:
  assumes "sys_inv S" and m: "main_step A (sy_state S) (Event ev env) = Done (s', es)"
    and fresh: "ae_shutdown_ch (he_add env) = ch" "sy_fresh S \<le> ch"
  shows "no_orphans \<lparr>sy_state = s', sy_tasks = sy_tasks S @ map (Pair ch) (spawned_tasks es),
     sy_signalled = sy_signalled S @ signals es, sy_queue = evs, sy_fresh = f\<rparr>"
proof -
  from assms(1) have old: "no_orphans S" by (simp add: sys_inv_def)
  from m show ?thesis
  proof (cases rule: main_effects)
    case (Added conn task)
    then show ?thesis using old fresh by (auto simp: no_orphans_def State_add_def)
  next
    case (Removed c)
    then have "set (conns (sy_state S)) = insert c (set (conns s'))" by (metis list.simps(15) set_mset_mset)
    with old Removed show ?thesis by (auto simp: no_orphans_def)
  next
    case Same
    then show ?thesis using old by (auto simp: no_orphans_def)
  qed
qed

lemma main_keeps_ids:
  assumes "sys_inv S" and m: "main_step A (sy_state S) (Event ev env) = Done (s', es)"
    and fresh: "ae_shutdown_ch (he_add env) = ch" "sy_fresh S \<le> ch"
  shows "ids_fresh \<lparr>sy_state = s', sy_tasks = sy_tasks S @ map (Pair ch) (spawned_tasks es),
     sy_signalled = sy_signalled S @ signals es, sy_queue = evs, sy_fresh = next_fresh S ch es\<rparr>"
proof -
  from assms(1) have old: "ids_fresh S" by (simp add: sys_inv_def)
  from m show ?thesis
  proof (cases rule: main_effects)
    case (Added conn task)
    then show ?thesis using old fresh by (fastforce simp: ids_fresh_def State_add_def next_fresh_def)
  next
    case (Removed c)
    then have set: "set (conns (sy_state S)) = insert c (set (conns s'))" by (metis list.simps(15) set_mset_mset)
    have "distinct (map cn_shutdown_tx (conns (sy_state S)))" using assms(1) by (simp add: sys_inv_def ids_fresh_def)
    with Removed(1) have "distinct (map cn_shutdown_tx (c # conns s'))" by (metis mset_eq_imp_distinct_iff mset_map)
    with old show ?thesis unfolding ids_fresh_def by (simp add: set Removed(2,3) next_fresh_def)
  next
    case Same
    then show ?thesis using old by (simp add: ids_fresh_def next_fresh_def)
  qed
qed

lemma main_keeps_zombies:
  assumes inv: "sys_inv S" and m: "main_step A (sy_state S) (Event ev env) = Done (s', es)"
    and q: "sy_queue S = ev # evs" and fresh: "ae_shutdown_ch (he_add env) = ch" "sy_fresh S \<le> ch"
  shows "no_zombies \<lparr>sy_state = s', sy_tasks = sy_tasks S @ map (Pair ch) (spawned_tasks es),
     sy_signalled = sy_signalled S @ signals es, sy_queue = evs, sy_fresh = f\<rparr>"
proof -
  from inv have old: "no_zombies S" "ids_fresh S" by (simp_all add: sys_inv_def)
  have keep: "ConnectionClosed (cn_name c) \<in> set evs"
    if "ConnectionClosed (cn_name c) \<in> set (sy_queue S)" "ev \<noteq> ConnectionClosed (cn_name c)" for c
    using that q by auto
  from m show ?thesis
  proof (cases rule: main_effects)
    case (Added conn task)
    then have "\<forall>tx \<in> set (sy_signalled S). tx \<noteq> cn_shutdown_tx conn"
      using old(2) fresh by (auto simp: ids_fresh_def)
    with old(1) Added fresh keep show ?thesis by (auto simp: no_zombies_def State_add_def)
  next
    case (Removed c)
    then have set: "set (conns (sy_state S)) = insert c (set (conns s'))" by (metis list.simps(15) set_mset_mset)
    have tx: "distinct (map cn_shutdown_tx (c # conns s'))"
      using old(2) Removed(1) unfolding ids_fresh_def by (metis mset_eq_imp_distinct_iff mset_map)
    have nm: "distinct (map cn_name (c # conns s'))"
      using inv Removed(1) unfolding sys_inv_def State_inv_def by (metis mset_eq_imp_distinct_iff mset_map)
    show ?thesis
      unfolding no_zombies_def
    proof (simp add: Removed(2,3), intro ballI conjI)
      fix d
      assume d: "d \<in> set (conns s')"
      with tx show "cn_shutdown_tx d \<noteq> cn_shutdown_tx c" by (auto simp: image_iff)
      from d nm have "cn_name d \<noteq> cn_name c" by (auto simp: image_iff)
      with Removed(4) have "ev \<noteq> ConnectionClosed (cn_name d)" by auto
      then show "(\<exists>p\<in>set (sy_tasks S). fst p = cn_shutdown_tx d \<and> ct_name (snd p) = cn_name d) \<or>
          ConnectionClosed (cn_name d) \<in> set evs"
        using old(1) d set keep [of d] by (auto simp: no_zombies_def)
      show "cn_shutdown_tx d \<notin> set (sy_signalled S)"
        using old(1) d set by (auto simp: no_zombies_def)
    qed
  next
    case Same
    then show ?thesis using old(1) keep by (auto simp: no_zombies_def)
  qed
qed

lemma main_keeps_inv:
  assumes inv: "sys_inv S" and q: "sy_queue S = ev # evs" and fresh: "ae_shutdown_ch (he_add env) = ch" "sy_fresh S \<le> ch"
    and m: "main_step A (sy_state S) (Event ev env) = Done (s', es)"
  shows "sys_inv \<lparr>sy_state = s', sy_tasks = sy_tasks S @ map (Pair ch) (spawned_tasks es),
     sy_signalled = sy_signalled S @ signals es, sy_queue = evs, sy_fresh = next_fresh S ch es\<rparr>"
proof -
  have "State_inv s'" using daemon.step_inv [OF _ _ m] inv by (simp add: sys_inv_def)
  moreover have "\<forall>t \<in> set (spawned_tasks es). conn_inv t"
    using m by (cases rule: main_effects) auto
  ultimately show ?thesis
    using inv q main_keeps_orphans [OF inv m fresh] main_keeps_ids [OF inv m fresh] main_keeps_zombies [OF inv m q fresh]
    by (auto simp: sys_inv_def)
qed

lemma notices_shutdown: "notices (snd (shutdown t)) = [ConnectionClosed (ct_name t)]"
  by (simp add: shutdown_eq)

lemma task_keeps_inv:
  assumes inv: "sys_inv S" and ts: "sy_tasks S = pre @ (tx, t) # post" and "\<not> should_close t" "admissible i"
    "step A t i = Done (t', es)"
  shows "sys_inv (S\<lparr>sy_tasks := pre @ (tx, t') # post\<rparr>)"
proof -
  from inv ts have "conn_inv t" by (simp add: sys_inv_def)
  from step_step_facts [OF this] assms(3-5) have "conn_inv t'" "ct_name t' = ct_name t"
    by (simp_all add: step_facts_def)
  with inv ts show ?thesis by (auto simp: sys_inv_def no_orphans_def no_zombies_def ids_fresh_def)
qed

lemma close_keeps_inv:
  assumes inv: "sys_inv S" and ts: "sy_tasks S = pre @ (tx, t) # post" and "length (sy_queue S) < EVENT_CAPACITY"
  shows "sys_inv (S\<lparr>sy_tasks := pre @ post, sy_queue := sy_queue S @ notices (snd (shutdown t))\<rparr>)"
proof -
  let ?S' = "S\<lparr>sy_tasks := pre @ post, sy_queue := sy_queue S @ notices (snd (shutdown t))\<rparr>"
  have "no_zombies ?S'"
    using inv ts by (fastforce simp: sys_inv_def no_zombies_def notices_shutdown)
  moreover have "no_orphans ?S'" "ids_fresh ?S'"
    using inv ts by (auto simp: sys_inv_def no_orphans_def ids_fresh_def)
  ultimately show ?thesis using assms by (auto simp: sys_inv_def notices_shutdown)
qed

lemma sys_step_inv: "sys_step A S S' \<Longrightarrow> sys_inv S \<Longrightarrow> sys_inv S'"
proof (induction rule: sys_step.induct)
  case (command S msg tx)
  then show ?case by (auto simp: sys_inv_def no_orphans_def no_zombies_def ids_fresh_def)
next
  case (main S ev evs env ch s' es)
  then show ?case by (blast intro: main_keeps_inv)
next
  case (task S pre tx t post i t' es)
  then show ?case by (blast intro: task_keeps_inv)
next
  case (close S pre tx t post)
  then show ?case by (blast intro: close_keeps_inv)
qed

lemma sys_reach_inv: "sys_reach A S \<Longrightarrow> sys_inv S"
proof (induction rule: rtranclp_induct)
  case base
  show ?case
    by (simp add: sys_inv_def system_init_def no_orphans_def no_zombies_def ids_fresh_def vec.empty_inv)
       (simp add: State_default_def)
next
  case (step S S')
  then show ?case by (blast intro: sys_step_inv)
qed

lemma sys_exec_step: "sys_exec A S a = Some S' \<Longrightarrow> sys_step A S S'"
proof (cases a)
  case (ActTask k i)
  moreover assume ex: "sys_exec A S a = Some S'"
  ultimately obtain t' es where k: "k < length (sy_tasks S)" "\<not> should_close (snd (sy_tasks S ! k))" "admissible i"
    "takes_shutdown i \<longrightarrow> fst (sy_tasks S ! k) \<in> set (sy_signalled S)"
    "step A (snd (sy_tasks S ! k)) i = Done (t', es)"
    "S' = S\<lparr>sy_tasks := (sy_tasks S)[k := (fst (sy_tasks S ! k), t')]\<rparr>"
    by (auto simp: sys_exec_def split: if_splits outcome.splits)
  have "sy_tasks S = take k (sy_tasks S) @ (fst (sy_tasks S ! k), snd (sy_tasks S ! k)) # drop (Suc k) (sy_tasks S)"
    using k(1) by (simp add: id_take_nth_drop)
  from sys_step.task [OF this k(2,3) _ k(5)] k(4,6) k(1) show ?thesis
    by (simp add: upd_conv_take_nth_drop)
next
  case (ActClose k)
  moreover assume ex: "sys_exec A S a = Some S'"
  ultimately have k: "k < length (sy_tasks S)" "should_close (snd (sy_tasks S ! k))"
    "length (sy_queue S) < EVENT_CAPACITY"
    "S' = S\<lparr>sy_tasks := take k (sy_tasks S) @ drop (Suc k) (sy_tasks S),
            sy_queue := sy_queue S @ notices (snd (shutdown (snd (sy_tasks S ! k))))\<rparr>"
    by (auto simp: sys_exec_def split: if_splits)
  have "sy_tasks S = take k (sy_tasks S) @ (fst (sy_tasks S ! k), snd (sy_tasks S ! k)) # drop (Suc k) (sy_tasks S)"
    using k(1) by (simp add: id_take_nth_drop)
  from sys_step.close [OF this k(2,3)] k(4) show ?thesis by simp
qed (auto simp: sys_exec_def intro: sys_step.command sys_step.main split: if_splits list.splits outcome.splits)

lemma sys_execs_reach: "sys_execs A S as = Some S' \<Longrightarrow> (sys_step A)\<^sup>*\<^sup>* S S'"
proof (induction "as" arbitrary: S)
  case (Cons a "as")
  then show ?case
    by (auto split: option.splits intro: converse_rtranclp_into_rtranclp dest: sys_exec_step)
qed simp

text \<open>The main loop can handle every event, given answers from the tasks it asks.\<close>

lemma main_step_total:
  assumes "length (conns s) \<le> length (he_list env)"
  shows "\<exists>s' es. main_step A s (Event ev env) = Done (s', es :: 'f daemon_effect list)"
proof (cases ev)
  case (CliCommand msg tx)
  have "\<exists>r. handle_daemon_request A s msg env = (Done r :: 'f handled)"
  proof (cases msg)
    case (ReqAdd n a p)
    then show ?thesis by (auto simp: handle_daemon_request_def intro: prod_cases3)
  next
    case (ReqRemove n)
    obtain b s' hs where "State_remove s n = Some (b, s', hs)" using State_remove_total by blast
    with ReqRemove show ?thesis by (cases b) (simp_all add: handle_daemon_request_def)
  next
    case ReqList
    from list_loop_total [OF assms] ReqList show ?thesis
      by (auto simp: handle_daemon_request_def State_list_def)
  qed (auto simp: handle_daemon_request_def split: option.split prod.split Result.split DeviceControlResponse.split)
  then obtain r s' es where "handle_daemon_request A s msg env = (Done (r, s', es) :: 'f handled)"
    by (metis prod_cases3)
  with CliCommand show ?thesis by (simp add: main_step_def)
next
  case (ConnectionClosed n)
  with State_remove_total [of s n] show ?thesis by (auto simp: main_step_def)
qed

definition answering_env :: "sender \<Rightarrow> State \<Rightarrow> handler_env" where
  "answering_env ch s = \<lparr>he_add = demo_add\<lparr>ae_shutdown_ch := ch, ae_ctl_ch := ch\<rparr>, he_reset = (0, Ok (), Ok (Ok CtlOk)),
     he_list = replicate (length (conns s)) (0, Ok (), Ok True)\<rparr>"

lemma queue_drains:
  fixes S :: "'f system"
  shows "\<exists>S'. (sys_step A)\<^sup>*\<^sup>* S S' \<and> sy_queue S' = []"
proof (induction "sy_queue S" arbitrary: S)
  case Nil
  then show ?case by (metis rtranclp.rtrancl_refl)
next
  case (Cons ev evs)
  have len: "length (conns (sy_state S)) \<le> length (he_list (answering_env (sy_fresh S) (sy_state S)))"
    by (simp add: answering_env_def)
  obtain s' and es :: "'f daemon_effect list" where
    "main_step A (sy_state S) (Event ev (answering_env (sy_fresh S) (sy_state S))) = Done (s', es)"
    using main_step_total [OF len] by blast
  from sys_step.main [OF Cons.hyps(2) [symmetric] refl _ this] obtain S1 where S1: "sys_step A S S1" "sy_queue S1 = evs"
    by (fastforce simp: answering_env_def)
  from Cons.hyps(1) [OF S1(2) [symmetric]] S1(1) show ?case
    by (meson converse_rtranclp_into_rtranclp)
qed

text \<open>
  For the examples: a connection is added; it is removed; one of the same name is added; the first task
  sees its signal and ends.
\<close>

definition demo_acts :: "unit sys_act list" where
  "demo_acts =
     [ActCommand (ReqAdd (lit ''a'') 0x7F000001 15113) 100,
      ActMain (demo_env\<lparr>he_add := demo_add\<lparr>ae_shutdown_ch := 0\<rparr>\<rparr>),
      ActCommand (ReqRemove (lit ''a'')) 101,
      ActMain (demo_env\<lparr>he_add := demo_add\<lparr>ae_shutdown_ch := 1\<rparr>\<rparr>),
      ActCommand (ReqAdd (lit ''a'') 0x7F000001 15113) 102,
      ActMain (demo_env\<lparr>he_add := demo_add\<lparr>ae_shutdown_ch := 2\<rparr>\<rparr>),
      ActTask 0 (InReconnecting [WShutdown] demo_connect),
      ActClose 0]"

definition demo_conn_2 :: Connection where
  "demo_conn_2 = demo_conn\<lparr>cn_shutdown_tx := 2\<rparr>"

definition demo_system :: "unit system" where
  "demo_system = \<lparr>sy_state = \<lparr>conns = [demo_conn_2]\<rparr>,
     sy_tasks = [(2, snd (build_and_spawn (lit ''a'') 0x7F000001 15113
       \<lparr>pty_fd = 4, current_tio = \<lparr>control_flags = 0x30, local_flags = 0x10000, tio_rest = 13\<rparr>, slave_fd = 5\<rparr>
       (lit ''/dev/pts/3'') 2 2))],
     sy_signalled = [0], sy_queue = [ConnectionClosed (lit ''a'')], sy_fresh = 3\<rparr>"

lemma demo_system_exec: "sys_execs linux_termios system_init demo_acts = Some demo_system"
  by code_simp

lemma demo_system_reach: "sys_reach linux_termios demo_system"
  by (rule sys_execs_reach [OF demo_system_exec])

section \<open>Properties\<close>

text \<open>C6. Tasks and registry fit together in every reachable state of the daemon: no two connections have
  the same name; every live task belongs to a registered connection or was told to shut down; every
  registered connection has its task, not told to shut down, or the notice of its end is waiting in
  the event channel, which never exceeds its capacity.\<close>

theorem system_no_leaks:
  assumes "sys_reach A S"
  shows "State_inv (sy_state S) \<and> no_orphans S \<and> no_zombies S \<and> length (sy_queue S) \<le> EVENT_CAPACITY"
  using sys_reach_inv [OF assms] by (simp add: sys_inv_def)

theorem system_no_leaks_witness: "no_orphans demo_system \<and> no_zombies demo_system"
  using system_no_leaks [OF demo_system_reach] by blast

text \<open>The registry catches up with the tasks: as long as the tasks answer the main loop's requests, the
  pending events can be worked off from every reachable state, and then the registered connections are
  exactly those whose task is running and was not told to shut down.\<close>

lemma system_catches_up:
  assumes "sys_reach A S"
  shows "\<exists>S'. (sys_step A)\<^sup>*\<^sup>* S S' \<and> sy_queue S' = [] \<and>
     cn_shutdown_tx ` set (conns (sy_state S')) = fst ` set (sy_tasks S') - set (sy_signalled S')"
proof -
  obtain S' where S': "(sys_step A)\<^sup>*\<^sup>* S S'" "sy_queue S' = []" using queue_drains by blast
  from sys_reach_inv [OF rtranclp_trans [OF assms S'(1)]] have inv: "no_orphans S'" "no_zombies S'"
    by (simp_all add: sys_inv_def)
  have "cn_shutdown_tx ` set (conns (sy_state S')) = fst ` set (sy_tasks S') - set (sy_signalled S')"
  proof (intro equalityI subsetI)
    fix tx assume "tx \<in> cn_shutdown_tx ` set (conns (sy_state S'))"
    then obtain c where c: "c \<in> set (conns (sy_state S'))" "tx = cn_shutdown_tx c" by blast
    with inv(2) S'(2) obtain p where "p \<in> set (sy_tasks S')" "fst p = tx" "tx \<notin> set (sy_signalled S')"
      unfolding no_zombies_def by auto
    then show "tx \<in> fst ` set (sy_tasks S') - set (sy_signalled S')" by auto
  next
    fix tx assume "tx \<in> fst ` set (sy_tasks S') - set (sy_signalled S')"
    with inv(1) show "tx \<in> cn_shutdown_tx ` set (conns (sy_state S'))"
      by (fastforce simp: no_orphans_def)
  qed
  with S' show ?thesis by blast
qed

text \<open>C38. A notice of an old connection ends a new one of the same name: there is a reachable state in
  which a registered connection has a running task that was not told to shut down, no command is
  pending, and the next event, the notice that the task of an earlier connection of that name ended,
  removes it from the registry and shuts it down.\<close>

theorem stale_close_removes_live_connection:
  "\<exists>(S :: unit system) S' c t n. sys_reach linux_termios S \<and> sys_step linux_termios S S' \<and>
     sy_queue S = [ConnectionClosed n] \<and> c \<in> set (conns (sy_state S)) \<and> cn_name c = n \<and>
     (cn_shutdown_tx c, t) \<in> set (sy_tasks S) \<and> \<not> should_close t \<and> cn_shutdown_tx c \<notin> set (sy_signalled S) \<and>
     c \<notin> set (conns (sy_state S')) \<and> cn_shutdown_tx c \<in> set (sy_signalled S')"
proof -
  let ?S' = "demo_system\<lparr>sy_state := \<lparr>conns = []\<rparr>, sy_signalled := [0, 2], sy_queue := []\<rparr>"
  let ?t = "snd (hd (sy_tasks demo_system))"
  have "sys_exec linux_termios demo_system (ActMain (demo_env\<lparr>he_add := demo_add\<lparr>ae_shutdown_ch := 3\<rparr>\<rparr>)) = Some ?S'"
    by code_simp
  then have st: "sys_step linux_termios demo_system ?S'" by (rule sys_exec_step)
  have "sy_queue demo_system = [ConnectionClosed (lit ''a'')]" "demo_conn_2 \<in> set (conns (sy_state demo_system))"
    "cn_name demo_conn_2 = lit ''a''" "(cn_shutdown_tx demo_conn_2, ?t) \<in> set (sy_tasks demo_system)"
    "\<not> should_close ?t" "cn_shutdown_tx demo_conn_2 \<notin> set (sy_signalled demo_system)"
    "demo_conn_2 \<notin> set (conns (sy_state ?S'))" "cn_shutdown_tx demo_conn_2 \<in> set (sy_signalled ?S')"
    by (simp_all add: demo_system_def demo_conn_2_def demo_conn_def build_and_spawn_def Let_def)
  with demo_system_reach st show ?thesis by blast
qed

end
