(* ===== verification/Daemon_Async.thy ===== *)
theory Daemon_Async
  imports Daemon_System
begin

text \<open>
  The daemon once more as a whole, now with the channels on which the main loop asks the connection
  tasks. Handling \<open>list\<close> and \<open>reset\<close>, the main loop puts a request into the channel of a task
  (\<open>mpsc::channel(8)\<close>) and waits for the answer on a oneshot channel before it goes on; meanwhile clients
  and tasks run. What in \<open>Daemon_System\<close> was an arbitrary answer is here the reply of the task, or
  the error that the task is gone.

  A connection and its task are known by one number, for both of its channels; oneshot channels have
  numbers of their own. The waits of a task inside \<open>step_reconnecting\<close> and \<open>step_resyncing\<close> are taken
  apart: answering one request is a step.
\<close>

section \<open>State\<close>

text \<open>Where the main loop waits, with the event it handles and the answers it has so far.\<close>

datatype main_wait =
    Receiving
  | Listing DaemonEvent "bool request_env list" \<comment> \<open>between two connections of \<open>State::list\<close>\<close>
  | AwaitStatus DaemonEvent "bool request_env list" nat sender \<comment> \<open>\<open>get_status\<close>: the task and the oneshot channel\<close>
  | AwaitReset DaemonEvent nat sender \<comment> \<open>\<open>send_hardware_ctl\<close>\<close>

record 'f asystem =
  as_state :: State
  as_tasks :: "(nat \<times> 'f ConnectionTask) list"
  as_chan :: "nat \<Rightarrow> ConnectionTaskRequest list"
  as_signalled :: "nat list"
  as_queue :: "DaemonEvent list"
  as_main :: main_wait
  as_ctl_replies :: "(sender \<times> ctl_reply) list"
  as_status_replies :: "(sender \<times> bool) list"
  as_responses :: "(sender \<times> DaemonResponse) list" \<comment> \<open>what the clients were answered so far\<close>
  as_fresh :: nat

definition REQUEST_CAPACITY :: nat where
  "REQUEST_CAPACITY = 8"

definition async_init :: "'f asystem" where
  "async_init = \<lparr>as_state = State_default, as_tasks = [], as_chan = (\<lambda>_. []), as_signalled = [], as_queue = [],
     as_main = Receiving, as_ctl_replies = [], as_status_replies = [], as_responses = [], as_fresh = 0\<rparr>"

definition alive :: "'f asystem \<Rightarrow> nat \<Rightarrow> bool" where
  "alive S k \<longleftrightarrow> k \<in> set (map fst (as_tasks S))"

text \<open>The replies among the effects of a task.\<close>

fun ctl_reply_1 :: "effect \<Rightarrow> (sender \<times> ctl_reply) list" where
  "ctl_reply_1 (ReplyCtl tx r) = [(tx, r)]"
| "ctl_reply_1 _ = []"

definition ctl_replies :: "effect list \<Rightarrow> (sender \<times> ctl_reply) list" where
  "ctl_replies es = concat (map ctl_reply_1 es)"

section \<open>Steps of the main loop\<close>

text \<open>The end of an event: what the handler does, given all the answers it has got.\<close>

definition finish_event ::
  "termios_api \<Rightarrow> 'f asystem \<Rightarrow> DaemonEvent \<Rightarrow> handler_env \<Rightarrow> 'f asystem option" where
  "finish_event A S ev env =
     (if ae_shutdown_ch (he_add env) \<noteq> as_fresh S \<or> ae_ctl_ch (he_add env) \<noteq> as_fresh S then None
      else (case main_step A (as_state S) (Event ev env) of
              Done (s', es) \<Rightarrow>
                Some (S\<lparr>as_state := s', as_tasks := as_tasks S @ map (Pair (as_fresh S)) (spawned_tasks es),
                        as_signalled := as_signalled S @ signals es, as_main := Receiving,
                        as_responses := as_responses S @ responses es, as_fresh := Suc (as_fresh S)\<rparr>)
            | _ \<Rightarrow> None))"

text \<open>\<open>ctl_req_tx.send(..).await\<close> to a task that is there.\<close>

definition ask :: "'f asystem \<Rightarrow> nat \<Rightarrow> ConnectionTaskRequest \<Rightarrow> main_wait \<Rightarrow> 'f asystem option" where
  "ask S k req pc =
     (if length (as_chan S k) < REQUEST_CAPACITY
      then Some (S\<lparr>as_chan := (as_chan S)(k := as_chan S k @ [req]), as_main := pc, as_fresh := Suc (as_fresh S)\<rparr>)
      else None)"

definition main_receive :: "termios_api \<Rightarrow> 'f asystem \<Rightarrow> handler_env \<Rightarrow> 'f asystem option" where
  "main_receive A S0 env =
     (case (as_main S0, as_queue S0) of
        (Receiving, ev # evs) \<Rightarrow>
          (let S = S0\<lparr>as_queue := evs\<rparr>
           in case ev of
                CliCommand (ReqReset name) tx \<Rightarrow>
                  (case find (\<lambda>c. cn_name c = name) (conns (as_state S)) of
                     None \<Rightarrow> finish_event A S ev env
                   | Some c \<Rightarrow>
                       if alive S (cn_ctl_req_tx c)
                       then ask S (cn_ctl_req_tx c) (HardwareControl CtlReset (as_fresh S))
                              (AwaitReset ev (cn_ctl_req_tx c) (as_fresh S))
                       else finish_event A S ev (env\<lparr>he_reset := (as_fresh S, Err (), Err ())\<rparr>))
              | CliCommand ReqList tx \<Rightarrow> Some (S\<lparr>as_main := Listing ev []\<rparr>)
              | _ \<Rightarrow> finish_event A S ev env)
      | _ \<Rightarrow> None)"

definition main_list :: "termios_api \<Rightarrow> 'f asystem \<Rightarrow> handler_env \<Rightarrow> 'f asystem option" where
  "main_list A S env =
     (case as_main S of
        Listing ev sofar \<Rightarrow>
          (case drop (length sofar) (conns (as_state S)) of
             [] \<Rightarrow> finish_event A S ev (env\<lparr>he_list := sofar\<rparr>)
           | c # _ \<Rightarrow>
               if alive S (cn_ctl_req_tx c)
               then ask S (cn_ctl_req_tx c) (Status (as_fresh S)) (AwaitStatus ev sofar (cn_ctl_req_tx c) (as_fresh S))
               else Some (S\<lparr>as_main := Listing ev (sofar @ [(as_fresh S, Err (), Err ())])\<rparr>))
      | _ \<Rightarrow> None)"

text \<open>\<open>rx.await\<close>: the answer is there, or the sender is gone with the task.\<close>

definition main_status :: "'f asystem \<Rightarrow> 'f asystem option" where
  "main_status S =
     (case as_main S of
        AwaitStatus ev sofar k tx \<Rightarrow>
          (case map_of (as_status_replies S) tx of
             Some b \<Rightarrow> Some (S\<lparr>as_main := Listing ev (sofar @ [(tx, Ok (), Ok b)])\<rparr>)
           | None \<Rightarrow>
               if alive S k then None else Some (S\<lparr>as_main := Listing ev (sofar @ [(tx, Ok (), Err ())])\<rparr>))
      | _ \<Rightarrow> None)"

definition main_reset :: "termios_api \<Rightarrow> 'f asystem \<Rightarrow> handler_env \<Rightarrow> 'f asystem option" where
  "main_reset A S env =
     (case as_main S of
        AwaitReset ev k tx \<Rightarrow>
          (case map_of (as_ctl_replies S) tx of
             Some r \<Rightarrow> finish_event A S ev (env\<lparr>he_reset := (tx, Ok (), Ok r)\<rparr>)
           | None \<Rightarrow>
               if alive S k then None else finish_event A S ev (env\<lparr>he_reset := (tx, Ok (), Err ())\<rparr>))
      | _ \<Rightarrow> None)"

section \<open>Steps of the tasks\<close>

text \<open>Whether a step sees its request channel closed: only when the handle is gone.\<close>

fun sees_closed :: "'f step_in \<Rightarrow> bool" where
  "sees_closed (InConnected (CCtl None _)) = True"
| "sees_closed (InReconnecting (WCtl None # _) _) = True"
| "sees_closed (InResyncing (RCtl None # _)) = True"
| "sees_closed _ = False"

definition has_handle :: "'f asystem \<Rightarrow> nat \<Rightarrow> bool" where
  "has_handle S k \<longleftrightarrow> list_ex (\<lambda>c. cn_ctl_req_tx c = k) (conns (as_state S))"

text \<open>A step of the loop that takes at most the next request, and none from inside a waiting loop.\<close>

definition small_step :: "'f asystem \<Rightarrow> nat \<Rightarrow> 'f step_in \<Rightarrow> bool" where
  "small_step S k i \<longleftrightarrow>
     (case i of
        InConnected (CCtl (Some r) _) \<Rightarrow> (case as_chan S k of r' # _ \<Rightarrow> r = r' | [] \<Rightarrow> False)
      | _ \<Rightarrow> taken i = [])"

definition task_act :: "termios_api \<Rightarrow> 'f asystem \<Rightarrow> nat \<Rightarrow> 'f step_in \<Rightarrow> 'f asystem option" where
  "task_act A S j i =
     (if j < length (as_tasks S) then
        (case as_tasks S ! j of
           (k, t) \<Rightarrow>
             if \<not> should_close t \<and> admissible i \<and> (takes_shutdown i \<longrightarrow> k \<in> set (as_signalled S)) \<and>
                (sees_closed i \<longrightarrow> \<not> has_handle S k) \<and> small_step S k i
             then (case step A t i of
                     Done (t', es) \<Rightarrow>
                       Some (S\<lparr>as_tasks := (as_tasks S)[j := (k, t')],
                               as_chan := (as_chan S)(k := drop (length (taken i)) (as_chan S k)),
                               as_ctl_replies := as_ctl_replies S @ ctl_replies es,
                               as_status_replies := as_status_replies S @ status_answers es\<rparr>)
                   | _ \<Rightarrow> None)
             else None)
      else None)"

text \<open>A task that waits to reconnect or to resend answers the next request.\<close>

fun refusal :: "ConnectionTaskRequest \<Rightarrow> effect" where
  "refusal (HardwareControl _ tx) = ReplyCtl tx (Err Unavailable)"
| "refusal (Status tx) = ReplyStatus tx False"

definition answer_act :: "'f asystem \<Rightarrow> nat \<Rightarrow> 'f asystem option" where
  "answer_act S j =
     (if j < length (as_tasks S) then
        (case as_tasks S ! j of
           (k, t) \<Rightarrow>
             (case as_chan S k of
                [] \<Rightarrow> None
              | r # rs \<Rightarrow>
                  if ct_state t = Connected \<or> should_close t then None
                  else Some (S\<lparr>as_chan := (as_chan S)(k := rs),
                               as_ctl_replies := as_ctl_replies S @ ctl_replies [refusal r],
                               as_status_replies := as_status_replies S @ status_answers [refusal r]\<rparr>)))
      else None)"

text \<open>
  \<open>ConnectionTask::shutdown\<close>: first the pending control request is failed, then the notice waits for room
  in the event channel. When it is in, the task ends, and its channel with all requests in it is dropped.
\<close>

definition fail_act :: "'f asystem \<Rightarrow> nat \<Rightarrow> 'f asystem option" where
  "fail_act S j =
     (if j < length (as_tasks S) then
        (case as_tasks S ! j of
           (k, t) \<Rightarrow>
             if should_close t \<and> ct_pending_hw_ctl t \<noteq> None
             then (case fail_pending_ctl t of
                     (t', es) \<Rightarrow> Some (S\<lparr>as_tasks := (as_tasks S)[j := (k, t')],
                                         as_ctl_replies := as_ctl_replies S @ ctl_replies es\<rparr>))
             else None)
      else None)"

definition close_act :: "'f asystem \<Rightarrow> nat \<Rightarrow> 'f asystem option" where
  "close_act S j =
     (if j < length (as_tasks S) then
        (case as_tasks S ! j of
           (k, t) \<Rightarrow>
             if should_close t \<and> ct_pending_hw_ctl t = None \<and> length (as_queue S) < EVENT_CAPACITY
             then Some (S\<lparr>as_tasks := take j (as_tasks S) @ drop (Suc j) (as_tasks S),
                          as_chan := (as_chan S)(k := []),
                          as_queue := as_queue S @ notices (snd (shutdown t))\<rparr>)
             else None)
      else None)"

datatype 'f async_act =
    AsCommand DaemonRequest sender
  | AsReceive handler_env
  | AsList handler_env
  | AsStatus
  | AsReset handler_env
  | AsTask nat "'f step_in"
  | AsAnswer nat
  | AsFail nat
  | AsClose nat

fun async_do :: "termios_api \<Rightarrow> 'f async_act \<Rightarrow> 'f asystem \<Rightarrow> 'f asystem option" where
  "async_do A (AsCommand msg tx) S =
     (if length (as_queue S) < EVENT_CAPACITY then Some (S\<lparr>as_queue := as_queue S @ [CliCommand msg tx]\<rparr>) else None)"
| "async_do A (AsReceive env) S = main_receive A S env"
| "async_do A (AsList env) S = main_list A S env"
| "async_do A AsStatus S = main_status S"
| "async_do A (AsReset env) S = main_reset A S env"
| "async_do A (AsTask j i) S = task_act A S j i"
| "async_do A (AsAnswer j) S = answer_act S j"
| "async_do A (AsFail j) S = fail_act S j"
| "async_do A (AsClose j) S = close_act S j"

fun async_run :: "termios_api \<Rightarrow> 'f async_act list \<Rightarrow> 'f asystem \<Rightarrow> 'f asystem option" where
  "async_run A [] S = Some S"
| "async_run A (a # as) S = (case async_do A a S of None \<Rightarrow> None | Some S' \<Rightarrow> async_run A as S')"

section \<open>Waiting loops, one request at a time\<close>

text \<open>Taking the waits apart is faithful: a request at the head of the input only puts its refusal first.\<close>

definition prepend :: "effect \<Rightarrow> ('a \<times> effect list) outcome \<Rightarrow> ('a \<times> effect list) outcome" where
  "prepend e r = (case r of Done (x, es) \<Rightarrow> Done (x, e # es) | Suspended \<Rightarrow> Suspended | Panicked \<Rightarrow> Panicked)"

lemma loop_prepend:
  "reconnect_loop (WCtl (Some r) # sels) = prepend (refusal r) (reconnect_loop sels)"
  "resync_loop (RCtl (Some r) # rsels) = prepend (refusal r) (resync_loop rsels)"
  by (cases r; simp add: prepend_def split: outcome.split)+

lemma step_reconnecting_prepend:
  assumes "ct_state t = Reconnecting d p"
  shows "step A t (InReconnecting (WCtl (Some r) # sels) env) = prepend (refusal r) (step A t (InReconnecting sels env))"
proof (cases "reconnect_loop sels")
  case (Done x)
  obtain b es where x: "x = (b, es)" by fastforce
  obtain res tcp where "TcpBridge_try_connect (ct_tcp t) env = (res, tcp)" by fastforce
  with assms Done x show ?thesis
    by (cases b; cases res; cases p; cases "next_backoff d")
       (simp_all add: step_def step_reconnecting_def loop_prepend prepend_def)
qed (simp_all add: assms step_def step_reconnecting_def loop_prepend prepend_def)

lemma step_resyncing_prepend:
  assumes "ct_state t = Resyncing p"
  shows "step A t (InResyncing (RCtl (Some r) # sels)) = prepend (refusal r) (step A t (InResyncing sels))"
proof (cases "resync_loop sels")
  case (Done x)
  obtain b es where x: "x = (b, es)" by fastforce
  show ?thesis
  proof (cases b)
    case (Some out)
    obtain res tcp io where "TcpBridge_send (ct_tcp t) p out = (res, tcp, io)" by (metis prod_cases3)
    with assms Done x Some show ?thesis
      by (cases res) (simp_all add: step_def step_resyncing_def loop_prepend prepend_def)
  qed (simp add: x Done assms step_def step_resyncing_def loop_prepend prepend_def)
qed (simp_all add: assms step_def step_resyncing_def loop_prepend prepend_def)

section \<open>Invariant\<close>

text \<open>
  The control and the status requests that a task has not answered yet, and what they may be while the main
  loop waits: the one request it waits for, unanswered or answered.
\<close>

definition ctl_open :: "ConnectionTaskRequest list \<Rightarrow> 'f ConnectionTask \<Rightarrow> sender list" where
  "ctl_open rs t = concat (map ctl_sender rs) @ pending_ctl t"

definition status_open :: "ConnectionTaskRequest list \<Rightarrow> sender list" where
  "status_open rs = concat (map status_sender rs)"

fun waits_ok :: "main_wait \<Rightarrow> nat \<Rightarrow> sender list \<Rightarrow> sender list \<Rightarrow> sender set \<Rightarrow> sender set \<Rightarrow> bool" where
  "waits_ok (AwaitReset ev k' tx) k ctl st CR SR =
     (st = [] \<and> (if k' = k then ctl = [tx] \<and> tx \<notin> CR \<or> ctl = [] \<and> tx \<in> CR else ctl = []))"
| "waits_ok (AwaitStatus ev sofar k' tx) k ctl st CR SR =
     (ctl = [] \<and> (if k' = k then st = [tx] \<and> tx \<notin> SR \<or> st = [] \<and> tx \<in> SR else st = []))"
| "waits_ok pc k ctl st CR SR = (ctl = [] \<and> st = [])"

text \<open>The event the main loop is handling while it waits.\<close>

fun event_ok :: "State \<Rightarrow> main_wait \<Rightarrow> bool" where
  "event_ok s (AwaitReset ev k tx) =
     (\<exists>name cl c. ev = CliCommand (ReqReset name) cl \<and> find (\<lambda>c. cn_name c = name) (conns s) = Some c)"
| "event_ok s (AwaitStatus ev sofar k tx) = (\<exists>cl. ev = CliCommand ReqList cl \<and> length sofar < length (conns s))"
| "event_ok s (Listing ev sofar) = (\<exists>cl. ev = CliCommand ReqList cl \<and> length sofar \<le> length (conns s))"
| "event_ok s Receiving = True"

fun oneshots :: "main_wait \<Rightarrow> sender set" where
  "oneshots (AwaitReset ev k tx) = {tx}"
| "oneshots (AwaitStatus ev sofar k tx) = {tx}"
| "oneshots _ = {}"

definition async_inv :: "'f asystem \<Rightarrow> bool" where
  "async_inv S \<longleftrightarrow>
     distinct (map fst (as_tasks S)) \<and>
     (\<forall>(k, t) \<in> set (as_tasks S). k < as_fresh S \<and> conn_inv t \<and>
        waits_ok (as_main S) k (ctl_open (as_chan S k) t) (status_open (as_chan S k))
          (fst ` set (as_ctl_replies S)) (fst ` set (as_status_replies S))) \<and>
     (\<forall>k. \<not> alive S k \<longrightarrow> as_chan S k = []) \<and>
     (\<forall>tx \<in> fst ` set (as_ctl_replies S) \<union> fst ` set (as_status_replies S) \<union> oneshots (as_main S). tx < as_fresh S) \<and>
     event_ok (as_state S) (as_main S)"

section \<open>Lemmas\<close>

abbreviation replied :: "'f asystem \<Rightarrow> sender set" where
  "replied S \<equiv> fst ` set (as_ctl_replies S) \<union> fst ` set (as_status_replies S)"

definition task_ok :: "'f asystem \<Rightarrow> nat \<Rightarrow> 'f ConnectionTask \<Rightarrow> bool" where
  "task_ok S k t \<longleftrightarrow> k < as_fresh S \<and> conn_inv t \<and>
     waits_ok (as_main S) k (ctl_open (as_chan S k) t) (status_open (as_chan S k))
       (fst ` set (as_ctl_replies S)) (fst ` set (as_status_replies S))"

text \<open>What receiving an event comes to.\<close>

lemma main_receive_cases [consumes 3, case_names List Ask Finish]:
  assumes "main_receive A S env = Some S'" and "as_main S = Receiving" and "as_queue S = ev # evs"
  obtains tx where "ev = CliCommand ReqList tx" "S' = S\<lparr>as_queue := evs, as_main := Listing ev []\<rparr>"
    | k req n tx where "ev = CliCommand (ReqReset n) tx" "ask (S\<lparr>as_queue := evs\<rparr>) k req (AwaitReset ev k (as_fresh S)) = Some S'"
    | env' where "finish_event A (S\<lparr>as_queue := evs\<rparr>) ev env' = Some S'"
proof (cases ev)
  case (CliCommand msg tx)
  with assms that show thesis
    by (cases msg) (auto simp: main_receive_def Let_def split: option.splits if_splits)
next
  case (ConnectionClosed n)
  with assms that(3) show thesis by (simp add: main_receive_def Let_def)
qed

lemma async_invI:
  assumes "distinct (map fst (as_tasks S))" and "\<And>k t. (k, t) \<in> set (as_tasks S) \<Longrightarrow> task_ok S k t"
    and "\<And>k. \<not> alive S k \<Longrightarrow> as_chan S k = []"
    and "\<And>tx. tx \<in> replied S \<union> oneshots (as_main S) \<Longrightarrow> tx < as_fresh S"
    and "event_ok (as_state S) (as_main S)"
  shows "async_inv S"
  using assms unfolding async_inv_def task_ok_def by blast

lemma async_invD:
  assumes "async_inv S"
  shows "distinct (map fst (as_tasks S))" and "(k, t) \<in> set (as_tasks S) \<Longrightarrow> task_ok S k t"
    and "\<not> alive S k \<Longrightarrow> as_chan S k = []"
    and "tx \<in> replied S \<union> oneshots (as_main S) \<Longrightarrow> tx < as_fresh S"
    and "event_ok (as_state S) (as_main S)"
  using assms unfolding async_inv_def task_ok_def by blast+

lemma ctl_replies_answered: "map fst (ctl_replies es) = answered es"
proof (induction es)
  case (Cons e es)
  moreover have "map fst (ctl_reply_1 e) = answered_1 e" by (cases e) simp_all
  ultimately show ?case by (simp add: ctl_replies_def answered_def)
qed (simp add: ctl_replies_def answered_def)

lemma mset_single_split: "mset (xs @ ys) = mset [a] \<Longrightarrow> xs = [a] \<and> ys = [] \<or> xs = [] \<and> ys = [a]"
  by (cases xs; cases ys) auto

lemma waits_ok_exchange:
  assumes "waits_ok pc k ctl st CR SR" and "mset (ctl' @ a) = mset ctl" and "mset (st' @ b) = mset st"
  shows "waits_ok pc k ctl' st' (CR \<union> set a) (SR \<union> set b)" and "set a \<union> set b \<subseteq> oneshots pc"
proof -
  have "waits_ok pc k ctl' st' (CR \<union> set a) (SR \<union> set b) \<and> set a \<union> set b \<subseteq> oneshots pc"
  proof (cases pc)
    case (AwaitReset ev k' tx)
    with assms show ?thesis using mset_single_split [of ctl' a tx] by (auto split: if_splits)
  next
    case (AwaitStatus ev sofar k' tx)
    with assms show ?thesis using mset_single_split [of st' b tx] by (auto split: if_splits)
  qed (use assms in auto)
  then show "waits_ok pc k ctl' st' (CR \<union> set a) (SR \<union> set b)" "set a \<union> set b \<subseteq> oneshots pc" by blast+
qed

lemma waits_ok_other:
  assumes "waits_ok pc k ctl st CR SR" and "waits_ok pc k' ctl' st' CR SR" and "k' \<noteq> k"
    and "set a \<subseteq> set ctl" and "set b \<subseteq> set st"
  shows "waits_ok pc k' ctl' st' (CR \<union> set a) (SR \<union> set b)"
  using assms by (cases pc) (auto split: if_splits)

text \<open>A task changes, its channel and the replies with it: no request is lost and none answered twice.\<close>

lemma exchange_inv:
  assumes inv: "async_inv S" and j: "j < length (as_tasks S)" "as_tasks S ! j = (k, t)" and t': "conn_inv t'"
    and ctl: "mset (ctl_open rs t' @ map fst cr) = mset (ctl_open (as_chan S k) t)"
    and st: "mset (status_open rs @ map fst sr) = mset (status_open (as_chan S k))"
  shows "async_inv (S\<lparr>as_tasks := (as_tasks S)[j := (k, t')], as_chan := (as_chan S)(k := rs),
    as_ctl_replies := as_ctl_replies S @ cr, as_status_replies := as_status_replies S @ sr\<rparr>)" (is "async_inv ?S")
proof -
  let ?CR = "fst ` set (as_ctl_replies S)" and ?SR = "fst ` set (as_status_replies S)"
  have mem: "(k, t) \<in> set (as_tasks S)" using j by (metis nth_mem)
  have d: "distinct (map fst (as_tasks S))" using inv by (simp add: async_inv_def)
  have all: "k2 < as_fresh S \<and> conn_inv t2 \<and> waits_ok (as_main S) k2 (ctl_open (as_chan S k2) t2) (status_open (as_chan S k2)) ?CR ?SR"
    if "(k2, t2) \<in> set (as_tasks S)" for k2 t2 using inv that by (auto simp: async_inv_def)
  note w = all [OF mem, THEN conjunct2, THEN conjunct2]
  note ex = waits_ok_exchange [OF w ctl st]
  have keys: "map fst ((as_tasks S)[j := (k, t')]) = map fst (as_tasks S)"
    using j by (simp add: map_update list_update_same_conv)
  have sub: "set (map fst cr) \<subseteq> set (ctl_open (as_chan S k) t)" "set (map fst sr) \<subseteq> set (status_open (as_chan S k))"
    using arg_cong [OF ctl, of set_mset] arg_cong [OF st, of set_mset] by auto
  have tasks: "k2 < as_fresh S \<and> conn_inv t2 \<and>
      waits_ok (as_main S) k2 (ctl_open (((as_chan S)(k := rs)) k2) t2) (status_open (((as_chan S)(k := rs)) k2))
        (?CR \<union> set (map fst cr)) (?SR \<union> set (map fst sr))"
    if "(k2, t2) \<in> set ((as_tasks S)[j := (k, t')])" for k2 t2
  proof (cases "k2 = k")
    case True
    have "t2 = t'"
      using that True d j keys by (metis eq_key_imp_eq_value keys list_update_id length_list_update nth_list_update_eq nth_mem)
    with True t' ex(1) all [OF mem] show ?thesis by simp
  next
    case False
    with that have m: "(k2, t2) \<in> set (as_tasks S)"
      using set_update_subset_insert [of "as_tasks S" j "(k, t')"] by auto
    with all [OF m] False waits_ok_other [OF w _ False sub] show ?thesis by simp
  qed
  moreover have "alive ?S k2 \<longleftrightarrow> alive S k2" for k2 by (simp add: alive_def keys flip: set_map)
  moreover have "alive S k" using mem by (force simp: alive_def)
  ultimately show ?thesis
    using inv ex(2) d keys unfolding async_inv_def
    by (auto simp: image_Un)
qed

lemma task_act_inv:
  assumes "async_inv S" and "task_act A S j i = Some S'"
  shows "async_inv S'"
proof -
  from assms(2) obtain k t t' es where t: "j < length (as_tasks S)" "as_tasks S ! j = (k, t)" "\<not> should_close t" "admissible i"
    "small_step S k i" "step A t i = Done (t', es)"
    and S': "S' = S\<lparr>as_tasks := (as_tasks S)[j := (k, t')], as_chan := (as_chan S)(k := drop (length (taken i)) (as_chan S k)),
      as_ctl_replies := as_ctl_replies S @ ctl_replies es, as_status_replies := as_status_replies S @ status_answers es\<rparr>"
    by (auto simp: task_act_def split: if_splits prod.splits outcome.splits)
  have "conn_inv t" using assms(1) nth_mem [OF t(1)] t(2) by (auto simp: async_inv_def)
  moreover have "ct_state t \<noteq> ShuttingDown" using t(3) by (auto simp: should_close_def)
  ultimately have facts: "step_facts A t i t' es" by (rule step_step_facts [OF _ _ t(4,6)])
  have chan: "as_chan S k = taken i @ drop (length (taken i)) (as_chan S k)"
    using t(5) by (auto simp: small_step_def split: step_in.splits connected_in.splits option.splits list.splits)
  have ctl: "mset (ctl_open (drop (length (taken i)) (as_chan S k)) t' @ map fst (ctl_replies es)) = mset (ctl_open (as_chan S k) t)"
    using facts unfolding ctl_open_def ctl_replies_answered
    by (subst (2) chan) (simp add: step_facts_def ac_simps)
  have "map fst (status_answers es) = concat (map status_sender (taken i))" using facts by (simp add: step_facts_def comp_def)
  then have st: "mset (status_open (drop (length (taken i)) (as_chan S k)) @ map fst (status_answers es)) = mset (status_open (as_chan S k))"
    unfolding status_open_def by (subst (2) chan) simp
  have "conn_inv t'" using facts by (simp add: step_facts_def)
  from exchange_inv [OF assms(1) t(1,2) this ctl st] show ?thesis by (simp add: S')
qed

lemma answer_act_inv:
  assumes "async_inv S" and "answer_act S j = Some S'"
  shows "async_inv S'"
proof -
  from assms(2) obtain k t r rs where t: "j < length (as_tasks S)" "as_tasks S ! j = (k, t)" "as_chan S k = r # rs"
    and S': "S' = S\<lparr>as_chan := (as_chan S)(k := rs), as_ctl_replies := as_ctl_replies S @ ctl_replies [refusal r],
      as_status_replies := as_status_replies S @ status_answers [refusal r]\<rparr>"
    by (auto simp: answer_act_def split: if_splits prod.splits list.splits)
  have "conn_inv t" using assms(1) nth_mem [OF t(1)] t(2) by (auto simp: async_inv_def)
  moreover have "mset (ctl_open rs t @ map fst (ctl_replies [refusal r])) = mset (ctl_open (as_chan S k) t)"
    "mset (status_open rs @ map fst (status_answers [refusal r])) = mset (status_open (as_chan S k))"
    by (cases r; simp add: t(3) ctl_open_def status_open_def ctl_replies_def status_answers_def)+
  ultimately have "async_inv (S\<lparr>as_tasks := (as_tasks S)[j := (k, t)], as_chan := (as_chan S)(k := rs),
      as_ctl_replies := as_ctl_replies S @ ctl_replies [refusal r],
      as_status_replies := as_status_replies S @ status_answers [refusal r]\<rparr>)"
    by (rule exchange_inv [OF assms(1) t(1,2)])
  moreover have "(as_tasks S)[j := (k, t)] = as_tasks S" using t(2) by (metis list_update_id)
  ultimately show ?thesis by (simp add: S')
qed

lemma fail_act_inv:
  assumes "async_inv S" and "fail_act S j = Some S'"
  shows "async_inv S'"
proof -
  from assms(2) obtain k t tx where t: "j < length (as_tasks S)" "as_tasks S ! j = (k, t)" "should_close t" "ct_pending_hw_ctl t = Some tx"
    and S': "S' = S\<lparr>as_tasks := (as_tasks S)[j := (k, t\<lparr>ct_pending_hw_ctl := None\<rparr>)],
      as_ctl_replies := as_ctl_replies S @ [(tx, Err Unavailable)]\<rparr>"
    by (auto simp: fail_act_def fail_pending_ctl_def ctl_replies_def split: if_splits prod.splits option.splits)
  have "conn_inv t" using assms(1) nth_mem [OF t(1)] t(2) by (auto simp: async_inv_def)
  then have "conn_inv (t\<lparr>ct_pending_hw_ctl := None\<rparr>)" using t(3)
    by (auto simp: conn_inv_def should_close_def split: ConnState.splits)
  moreover have "mset (ctl_open (as_chan S k) (t\<lparr>ct_pending_hw_ctl := None\<rparr>) @ map fst [(tx, Err Unavailable)]) = mset (ctl_open (as_chan S k) t)"
    by (simp add: ctl_open_def pending_ctl_def t(4))
  moreover have "mset (status_open (as_chan S k) @ map fst ([] :: (sender \<times> bool) list)) = mset (status_open (as_chan S k))" by simp
  ultimately have "async_inv (S\<lparr>as_tasks := (as_tasks S)[j := (k, t\<lparr>ct_pending_hw_ctl := None\<rparr>)],
      as_chan := (as_chan S)(k := as_chan S k), as_ctl_replies := as_ctl_replies S @ [(tx, Err Unavailable)],
      as_status_replies := as_status_replies S @ []\<rparr>)"
    by (rule exchange_inv [OF assms(1) t(1,2)])
  then show ?thesis by (simp add: S')
qed

lemma close_act_inv:
  assumes "async_inv S" and "close_act S j = Some S'"
  shows "async_inv S'"
proof -
  from assms(2) obtain k t where t: "j < length (as_tasks S)" "as_tasks S ! j = (k, t)"
    and S': "S' = S\<lparr>as_tasks := take j (as_tasks S) @ drop (Suc j) (as_tasks S), as_chan := (as_chan S)(k := []),
      as_queue := as_queue S @ notices (snd (shutdown t))\<rparr>"
    by (auto simp: close_act_def split: if_splits prod.splits)
  define R where "R = take j (as_tasks S) @ drop (Suc j) (as_tasks S)"
  have split: "as_tasks S = take j (as_tasks S) @ (k, t) # drop (Suc j) (as_tasks S)"
    using t by (metis id_take_nth_drop)
  have d: "distinct (map fst (as_tasks S))" using assms(1) by (simp add: async_inv_def)
  have set: "set (as_tasks S) = insert (k, t) (set R)" unfolding R_def by (subst split) auto
  have "distinct (map fst (take j (as_tasks S) @ (k, t) # drop (Suc j) (as_tasks S)))" using d by (simp flip: split)
  then have R: "k \<notin> fst ` set R" "distinct (map fst R)" unfolding R_def by auto
  have "S' = S\<lparr>as_tasks := R, as_chan := (as_chan S)(k := []), as_queue := as_queue S @ notices (snd (shutdown t))\<rparr>"
    by (simp add: S' R_def)
  note S' = this
  show ?thesis
  proof (rule async_invI)
    show "task_ok S' k2 t2" if "(k2, t2) \<in> set (as_tasks S')" for k2 t2
    proof -
      from that have "(k2, t2) \<in> set R" by (simp add: S')
      moreover from this R(1) have "k2 \<noteq> k" by force
      ultimately show ?thesis using async_invD(2) [OF assms(1), of k2 t2] by (simp add: S' set task_ok_def)
    qed
    show "as_chan S' k2 = []" if "\<not> alive S' k2" for k2
      using that async_invD(3) [OF assms(1), of k2] by (auto simp: S' alive_def set)
  qed (use async_invD(4,5) [OF assms(1)] R(2) in \<open>simp_all add: S'\<close>)
qed

lemma waits_ok_idle:
  "waits_ok pc k ctl st CR SR \<Longrightarrow> (\<And>ev tx. pc = AwaitReset ev k tx \<Longrightarrow> tx \<in> CR) \<Longrightarrow>
   (\<And>ev sofar tx. pc = AwaitStatus ev sofar k tx \<Longrightarrow> tx \<in> SR) \<Longrightarrow> ctl = [] \<and> st = []"
  by (cases pc) (auto split: if_splits)

text \<open>The main loop stops waiting: the answer is there, or the task is gone.\<close>

lemma stop_waiting_inv:
  assumes inv: "async_inv S" and pc: "pc = Receiving \<or> pc = Listing ev sofar" "event_ok (as_state S) pc"
    and reset: "\<And>ev k tx. as_main S = AwaitReset ev k tx \<Longrightarrow> tx \<in> fst ` set (as_ctl_replies S) \<or> \<not> alive S k"
    and status: "\<And>ev sofar k tx. as_main S = AwaitStatus ev sofar k tx \<Longrightarrow> tx \<in> fst ` set (as_status_replies S) \<or> \<not> alive S k"
  shows "async_inv (S\<lparr>as_main := pc\<rparr>)"
proof -
  have "ctl_open (as_chan S k) t = [] \<and> status_open (as_chan S k) = []" if "(k, t) \<in> set (as_tasks S)" for k t
  proof (rule waits_ok_idle)
    show "waits_ok (as_main S) k (ctl_open (as_chan S k) t) (status_open (as_chan S k))
        (fst ` set (as_ctl_replies S)) (fst ` set (as_status_replies S))"
      using inv that by (auto simp: async_inv_def)
    have "alive S k" using that by (force simp: alive_def)
    then show "tx \<in> fst ` set (as_ctl_replies S)" if "as_main S = AwaitReset ev k tx" for ev tx using reset [OF that] by simp
    show "tx \<in> fst ` set (as_status_replies S)" if "as_main S = AwaitStatus ev sofar k tx" for ev sofar tx
      using status [OF that] \<open>alive S k\<close> by simp
  qed
  then have idle: "task_ok (S\<lparr>as_main := pc\<rparr>) k t" if "(k, t) \<in> set (as_tasks S)" for k t
    using async_invD(2) [OF inv that] that pc(1) by (auto simp: task_ok_def)
  show ?thesis
  proof (rule async_invI)
    show "as_chan (S\<lparr>as_main := pc\<rparr>) k = []" if "\<not> alive (S\<lparr>as_main := pc\<rparr>) k" for k
      using that async_invD(3) [OF inv, of k] by (simp add: alive_def)
    show "tx < as_fresh (S\<lparr>as_main := pc\<rparr>)" if "tx \<in> replied (S\<lparr>as_main := pc\<rparr>) \<union> oneshots (as_main (S\<lparr>as_main := pc\<rparr>))" for tx
      using that pc(1) async_invD(4) [OF inv, of tx] by auto
  qed (use idle async_invD(1) [OF inv] pc in auto)
qed

lemma finish_event_inv:
  assumes inv: "async_inv (S\<lparr>as_main := Receiving\<rparr>)" and fin: "finish_event A S ev env = Some S'"
  shows "async_inv S'"
proof -
  from fin obtain s' es where st: "main_step A (as_state S) (Event ev env) = Done (s', es)"
    and S': "S' = S\<lparr>as_state := s', as_tasks := as_tasks S @ map (Pair (as_fresh S)) (spawned_tasks es),
      as_signalled := as_signalled S @ signals es, as_main := Receiving,
      as_responses := as_responses S @ responses es, as_fresh := Suc (as_fresh S)\<rparr>"
    by (auto simp: finish_event_def split: if_splits outcome.splits)
  from st consider "spawned_tasks es = []" | t where "spawned_tasks es = [t]" "conn_inv t" "pending_ctl t = []"
    by (cases rule: main_effects) auto
  note tasks = this
  let ?S = "S\<lparr>as_main := Receiving\<rparr>"
  have "k < as_fresh S" if "(k, t) \<in> set (as_tasks S)" for k t using async_invD(2) [OF inv, of k t] that by (simp add: task_ok_def)
  then have fresh: "as_fresh S \<notin> fst ` set (as_tasks S)" by force
  then have chan: "as_chan S (as_fresh S) = []" using async_invD(3) [OF inv, of "as_fresh S"] by (simp add: alive_def)
  show ?thesis
  proof (rule async_invI)
    show "distinct (map fst (as_tasks S'))" using tasks async_invD(1) [OF inv] fresh by cases (auto simp: S')
    show "task_ok S' k t" if "(k, t) \<in> set (as_tasks S')" for k t
    proof (cases "(k, t) \<in> set (as_tasks S)")
      case True
      with async_invD(2) [OF inv, of k t] show ?thesis by (simp add: S' task_ok_def)
    next
      case False
      from tasks have "k = as_fresh S \<and> conn_inv t \<and> pending_ctl t = []"
        by cases (use that False in \<open>auto simp: S'\<close>)
      with chan show ?thesis by (simp add: S' task_ok_def ctl_open_def status_open_def)
    qed
    show "as_chan S' k = []" if "\<not> alive S' k" for k
      using that async_invD(3) [OF inv, of k] by (auto simp: S' alive_def)
    show "tx < as_fresh S'" if "tx \<in> replied S' \<union> oneshots (as_main S')" for tx
      using that async_invD(4) [OF inv, of tx] by (auto simp: S' less_Suc_eq)
  qed (simp add: S')
qed

lemma ask_inv:
  assumes inv: "async_inv (S\<lparr>as_main := Receiving\<rparr>)" and alive: "alive S k" and ask: "ask S k req pc = Some S'"
    and req: "req = HardwareControl CtlReset (as_fresh S) \<and> pc = AwaitReset ev k (as_fresh S) \<or>
      req = Status (as_fresh S) \<and> pc = AwaitStatus ev sofar k (as_fresh S)"
    and ev: "event_ok (as_state S) pc"
  shows "async_inv S'"
proof -
  have S': "S' = S\<lparr>as_chan := (as_chan S)(k := as_chan S k @ [req]), as_main := pc, as_fresh := Suc (as_fresh S)\<rparr>"
    using ask by (simp add: ask_def split: if_splits)
  have old: "as_fresh S \<notin> replied S" using async_invD(4) [OF inv, of "as_fresh S"] by fastforce
  show ?thesis
  proof (rule async_invI)
    show "task_ok S' k2 t2" if "(k2, t2) \<in> set (as_tasks S')" for k2 t2
      using async_invD(2) [OF inv, of k2 t2] that req old
      by (auto simp: S' task_ok_def ctl_open_def status_open_def)
    show "as_chan S' k2 = []" if "\<not> alive S' k2" for k2
      using that async_invD(3) [OF inv, of k2] alive by (auto simp: S' alive_def)
    show "tx < as_fresh S'" if "tx \<in> replied S' \<union> oneshots (as_main S')" for tx
      using that async_invD(4) [OF inv, of tx] req by (auto simp: S' less_Suc_eq)
    show "event_ok (as_state S') (as_main S')" using ev by (simp add: S')
    show "distinct (map fst (as_tasks S'))" using async_invD(1) [OF inv] by (simp add: S')
  qed
qed

lemma queue_inv: "async_inv (S\<lparr>as_queue := q\<rparr>) = async_inv S"
  by (simp add: async_inv_def alive_def)

lemma main_receive_inv:
  assumes inv: "async_inv S" and rcv: "main_receive A S env = Some S'"
  shows "async_inv S'"
proof -
  from rcv obtain ev evs where m: "as_main S = Receiving" "as_queue S = ev # evs"
    by (auto simp: main_receive_def split: main_wait.splits list.splits)
  let ?S = "S\<lparr>as_queue := evs\<rparr>"
  have S: "async_inv ?S" using inv by (simp add: queue_inv)
  have idle: "async_inv (?S\<lparr>as_main := Receiving\<rparr>)" by (rule stop_waiting_inv [OF S]) (use m(1) in auto)
  have fin: ?thesis if "finish_event A ?S ev env' = Some S'" for env' using finish_event_inv [OF idle that] .
  show ?thesis
  proof (cases "\<exists>name tx. ev = CliCommand (ReqReset name) tx")
    case True
    then obtain name tx where ev: "ev = CliCommand (ReqReset name) tx" by blast
    show ?thesis
    proof (cases "find (\<lambda>c. cn_name c = name) (conns (as_state S))")
      case None
      with rcv m ev show ?thesis by (intro fin) (simp add: main_receive_def Let_def)
    next
      case (Some c)
      show ?thesis
      proof (cases "alive ?S (cn_ctl_req_tx c)")
        case True
        with rcv m ev Some have "ask ?S (cn_ctl_req_tx c) (HardwareControl CtlReset (as_fresh ?S))
            (AwaitReset ev (cn_ctl_req_tx c) (as_fresh ?S)) = Some S'" by (simp add: main_receive_def Let_def)
        from ask_inv [OF idle True this] ev Some show ?thesis by simp
      next
        case False
        with rcv m ev Some show ?thesis by (intro fin) (simp add: main_receive_def Let_def)
      qed
    qed
  next
    case False
    then consider (L) tx where "ev = CliCommand ReqList tx" | (F) "finish_event A ?S ev env = Some S'"
      using rcv m by (auto simp: main_receive_def Let_def split: DaemonEvent.splits DaemonRequest.splits)
    then show ?thesis
    proof cases
      case L
      have "async_inv (?S\<lparr>as_main := Listing ev []\<rparr>)"
        by (rule stop_waiting_inv [OF S]) (use L m(1) in auto)
      with L rcv m show ?thesis by (simp add: main_receive_def Let_def)
    qed (rule fin)
  qed
qed

lemma main_list_inv:
  assumes inv: "async_inv S" and ls: "main_list A S env = Some S'"
  shows "async_inv S'"
proof -
  from ls obtain ev sofar where m: "as_main S = Listing ev sofar" by (auto simp: main_list_def split: main_wait.splits)
  have idle: "async_inv (S\<lparr>as_main := Receiving\<rparr>)" by (rule stop_waiting_inv [OF inv]) (use m in auto)
  obtain cl where ev: "ev = CliCommand ReqList cl" using async_invD(5) [OF inv] m by auto
  show ?thesis
  proof (cases "drop (length sofar) (conns (as_state S))")
    case Nil
    with ls m have "finish_event A S ev (env\<lparr>he_list := sofar\<rparr>) = Some S'" by (simp add: main_list_def)
    then show ?thesis by (rule finish_event_inv [OF idle])
  next
    case (Cons c cs)
    then have len: "length sofar < length (conns (as_state S))" by (metis drop_all linorder_not_le list.distinct(1))
    show ?thesis
    proof (cases "alive S (cn_ctl_req_tx c)")
      case True
      with ls m Cons have "ask S (cn_ctl_req_tx c) (Status (as_fresh S)) (AwaitStatus ev sofar (cn_ctl_req_tx c) (as_fresh S)) = Some S'"
        by (simp add: main_list_def)
      from ask_inv [OF idle True this] ev len show ?thesis by simp
    next
      case False
      with ls m Cons have "S' = S\<lparr>as_main := Listing ev (sofar @ [(as_fresh S, Err (), Err ())])\<rparr>" by (simp add: main_list_def)
      moreover have "async_inv (S\<lparr>as_main := Listing ev (sofar @ [(as_fresh S, Err (), Err ())])\<rparr>)"
        by (rule stop_waiting_inv [OF inv]) (use m ev len in auto)
      ultimately show ?thesis by simp
    qed
  qed
qed

lemma main_status_inv:
  assumes inv: "async_inv S" and st: "main_status S = Some S'"
  shows "async_inv S'"
proof -
  from st obtain ev sofar k tx where m: "as_main S = AwaitStatus ev sofar k tx" by (auto simp: main_status_def split: main_wait.splits)
  with st obtain e where S': "S' = S\<lparr>as_main := Listing ev (sofar @ [e])\<rparr>"
    and r: "tx \<in> fst ` set (as_status_replies S) \<or> \<not> alive S k"
    by (auto simp: main_status_def split: option.splits if_splits dest!: map_of_SomeD) force+
  have "event_ok (as_state S) (Listing ev (sofar @ [e]))" using async_invD(5) [OF inv] m by auto
  then show ?thesis unfolding S' by (intro stop_waiting_inv [OF inv]) (use m r in auto)
qed

lemma main_reset_inv:
  assumes inv: "async_inv S" and rs: "main_reset A S env = Some S'"
  shows "async_inv S'"
proof -
  from rs obtain ev k tx where m: "as_main S = AwaitReset ev k tx" by (auto simp: main_reset_def split: main_wait.splits)
  with rs obtain env' where fin: "finish_event A S ev env' = Some S'"
    and r: "tx \<in> fst ` set (as_ctl_replies S) \<or> \<not> alive S k"
    by (auto simp: main_reset_def split: option.splits if_splits dest!: map_of_SomeD) force+
  have "async_inv (S\<lparr>as_main := Receiving\<rparr>)" by (rule stop_waiting_inv [OF inv]) (use m r in auto)
  then show ?thesis using fin by (rule finish_event_inv)
qed

lemma async_do_inv:
  assumes "async_inv S" and "async_do A a S = Some S'"
  shows "async_inv S'"
proof (cases a)
  case (AsCommand msg tx)
  with assms show ?thesis by (auto simp: queue_inv split: if_splits)
qed (use assms(2) in \<open>simp_all add: main_receive_inv [OF assms(1)] main_list_inv [OF assms(1)] main_status_inv [OF assms(1)]
  main_reset_inv [OF assms(1)] task_act_inv [OF assms(1)] answer_act_inv [OF assms(1)] fail_act_inv [OF assms(1)]
  close_act_inv [OF assms(1)]\<close>)

lemma async_run_inv: "async_run A as S = Some S' \<Longrightarrow> async_inv S \<Longrightarrow> async_inv S'"
  by (induction "as" arbitrary: S) (auto split: option.splits dest: async_do_inv)

lemma async_init_inv: "async_inv async_init"
  by (simp add: async_inv_def async_init_def)

lemma async_reach_inv: "async_run A as async_init = Some S \<Longrightarrow> async_inv S"
  by (rule async_run_inv [OF _ async_init_inv])

section \<open>Going on\<close>

lemma finish_event_total:
  assumes "ae_shutdown_ch (he_add env) = as_fresh S" and "ae_ctl_ch (he_add env) = as_fresh S"
    and "length (conns (as_state S)) \<le> length (he_list env)"
  shows "\<exists>S'. finish_event A S ev env = Some S'"
proof -
  obtain s' es where "main_step A (as_state S) (Event ev env) = (Done (s', es) :: (_ \<times> 'a daemon_effect list) outcome)"
    using main_step_total [OF assms(3)] by blast
  with assms(1,2) show ?thesis by (simp add: finish_event_def)
qed

definition some_env :: "'f asystem \<Rightarrow> handler_env" where
  "some_env S = answering_env (as_fresh S) (as_state S)"

lemma some_env_facts [simp]:
  "ae_shutdown_ch (he_add (some_env S)) = as_fresh S" "ae_ctl_ch (he_add (some_env S)) = as_fresh S"
  "length (he_list (some_env S)) = length (conns (as_state S))"
  by (simp_all add: some_env_def answering_env_def)

lemma open_lists:
  "ctl_open rs t = [] \<Longrightarrow> status_open rs = [] \<Longrightarrow> rs = []"
  "ctl_open rs t = [] \<Longrightarrow> status_open rs = [tx] \<Longrightarrow> rs = [Status tx]"
  "ctl_open rs t = [tx] \<Longrightarrow> status_open rs = [] \<Longrightarrow>
     rs = [HardwareControl CtlReset tx] \<and> ct_pending_hw_ctl t = None \<or> rs = [] \<and> ct_pending_hw_ctl t = Some tx"
proof -
  have none: "rs = []" if "concat (map ctl_sender rs) = []" "status_open rs = []" for rs
  proof (cases rs)
    case (Cons r rs')
    with that show ?thesis by (cases r) (simp_all add: status_open_def)
  qed
  show "ctl_open rs t = [] \<Longrightarrow> status_open rs = [] \<Longrightarrow> rs = []" by (rule none) (simp_all add: ctl_open_def)
  show "rs = [Status tx]" if "ctl_open rs t = []" "status_open rs = [tx]"
  proof (cases rs)
    case (Cons r rs')
    with that none [of rs'] show ?thesis by (cases r) (auto simp: ctl_open_def status_open_def)
  qed (use that in \<open>simp add: status_open_def\<close>)
  show "rs = [HardwareControl CtlReset tx] \<and> ct_pending_hw_ctl t = None \<or> rs = [] \<and> ct_pending_hw_ctl t = Some tx"
    if "ctl_open rs t = [tx]" "status_open rs = []"
  proof (cases rs)
    case Nil
    with that show ?thesis by (simp add: ctl_open_def pending_ctl_def split: option.splits)
  next
    case (Cons r rs')
    with that none [of rs'] show ?thesis
      by (cases r; cases "ct_pending_hw_ctl t")
         (auto simp: ctl_open_def status_open_def pending_ctl_def intro: DeviceControlRequest.exhaust)
  qed
qed

lemma alive_task: "alive S k \<longleftrightarrow> (\<exists>t. (k, t) \<in> set (as_tasks S))"
  by (force simp: alive_def)

lemma idle_chan:
  assumes "async_inv S" and "as_main S = Receiving \<or> as_main S = Listing ev sofar"
  shows "as_chan S k = []"
proof (cases "alive S k")
  case True
  then obtain t where "(k, t) \<in> set (as_tasks S)" by (auto simp: alive_task)
  from async_invD(2) [OF assms(1) this] assms(2) show ?thesis by (auto simp: task_ok_def intro: open_lists(1))
qed (rule async_invD(3) [OF assms(1)])

text \<open>The main loop can go on, or it waits for a task that has its request.\<close>

definition can_go_on :: "termios_api \<Rightarrow> 'f asystem \<Rightarrow> bool" where
  "can_go_on A S \<longleftrightarrow> (\<exists>env S'. main_receive A S env = Some S' \<or> main_list A S env = Some S' \<or> main_status S = Some S' \<or>
     main_reset A S env = Some S')"

lemma receive_goes_on:
  assumes inv: "async_inv S" and m: "as_main S = Receiving" "as_queue S = ev # evs"
  shows "\<exists>S'. main_receive A S (some_env S) = Some S'"
proof -
  let ?S = "S\<lparr>as_queue := evs\<rparr>"
  have fin: "\<exists>S'. finish_event A ?S ev (some_env S\<lparr>he_reset := e\<rparr>) = Some S'" for e
    by (rule finish_event_total) simp_all
  have fin0: "\<exists>S'. finish_event A ?S ev (some_env S) = Some S'" by (rule finish_event_total) simp_all
  have chan: "as_chan S k = []" for k using idle_chan [OF inv] m by blast
  show ?thesis
    using m fin fin0 chan
    by (auto simp: main_receive_def ask_def Let_def REQUEST_CAPACITY_def
        split: DaemonEvent.split DaemonRequest.split option.split)
qed

lemma list_goes_on:
  assumes inv: "async_inv S" and m: "as_main S = Listing ev sofar"
  shows "\<exists>S'. main_list A S (some_env S) = Some S'"
proof (cases "drop (length sofar) (conns (as_state S))")
  case Nil
  then have "\<exists>S'. finish_event A S ev (some_env S\<lparr>he_list := sofar\<rparr>) = Some S'"
    by (intro finish_event_total) simp_all
  with Nil m show ?thesis by (simp add: main_list_def)
next
  case (Cons c cs)
  have "as_chan S k = []" for k using idle_chan [OF inv] m by blast
  with Cons m show ?thesis by (simp add: main_list_def ask_def REQUEST_CAPACITY_def)
qed

lemma replied_map_of: "tx \<in> fst ` set xs \<Longrightarrow> \<exists>r. map_of xs tx = Some r"
  by (metis map_of_eq_None_iff not_None_eq)

lemma status_goes_on:
  assumes inv: "async_inv S" and m: "as_main S = AwaitStatus ev sofar k tx"
  shows "(\<exists>e. main_status S = Some (S\<lparr>as_main := Listing ev (sofar @ [e])\<rparr>)) \<or>
    (\<exists>t. (k, t) \<in> set (as_tasks S) \<and> as_chan S k = [Status tx] \<and> ct_pending_hw_ctl t = None)"
proof (cases "alive S k \<and> tx \<notin> fst ` set (as_status_replies S)")
  case True
  then obtain t where t: "(k, t) \<in> set (as_tasks S)" by (auto simp: alive_task)
  from async_invD(2) [OF inv t] m True have o: "ctl_open (as_chan S k) t = []" "status_open (as_chan S k) = [tx]"
    by (auto simp: task_ok_def)
  then have "pending_ctl t = []" by (simp add: ctl_open_def)
  with open_lists(2) [OF o] t show ?thesis by (auto simp: pending_ctl_def split: option.splits)
next
  case False
  then have "\<not> alive S k \<or> map_of (as_status_replies S) tx \<noteq> None" by (metis replied_map_of option.distinct(1))
  then show ?thesis using m by (auto simp: main_status_def split: option.split)
qed

lemma reset_goes_on:
  assumes inv: "async_inv S" and m: "as_main S = AwaitReset ev k tx"
  shows "(\<exists>S'. main_reset A S (some_env S) = Some S') \<or>
    (\<exists>t. (k, t) \<in> set (as_tasks S) \<and>
       (as_chan S k = [HardwareControl CtlReset tx] \<or> as_chan S k = [] \<and> ct_pending_hw_ctl t = Some tx))"
proof (cases "alive S k \<and> tx \<notin> fst ` set (as_ctl_replies S)")
  case True
  then obtain t where t: "(k, t) \<in> set (as_tasks S)" by (auto simp: alive_task)
  from async_invD(2) [OF inv t] m True have "ctl_open (as_chan S k) t = [tx]" "status_open (as_chan S k) = []"
    by (auto simp: task_ok_def)
  from open_lists(3) [OF this] t show ?thesis by blast
next
  case False
  have "\<exists>S'. finish_event A S ev (some_env S\<lparr>he_reset := e\<rparr>) = Some S'" for e by (rule finish_event_total) simp_all
  moreover from False have "\<not> alive S k \<or> map_of (as_ctl_replies S) tx \<noteq> None" by (metis replied_map_of option.distinct(1))
  ultimately show ?thesis using m by (auto simp: main_reset_def split: option.split)
qed

lemma chan_bound:
  assumes inv: "async_inv S"
  shows "length (as_chan S k) \<le> 1"
proof (cases "alive S k")
  case True
  then obtain t where "(k, t) \<in> set (as_tasks S)" by (auto simp: alive_task)
  from async_invD(2) [OF inv this] show ?thesis
    using open_lists [of "as_chan S k" t]
    by (cases "as_main S") (fastforce simp: task_ok_def split: if_splits)+
qed (use async_invD(3) [OF inv] in simp)

text \<open>A task that is not closing answers a status request; one that is closing ends, if its notice finds room.\<close>

lemma status_answer_step:
  assumes inv: "async_inv S" and m: "as_main S = AwaitStatus ev sofar k tx"
    and t: "(k, t) \<in> set (as_tasks S)" "as_chan S k = [Status tx]" "\<not> should_close t"
  shows "\<exists>a S1. async_do A a S = Some S1 \<and> as_main S1 = as_main S \<and> tx \<in> fst ` set (as_status_replies S1)"
proof -
  obtain j where j: "j < length (as_tasks S)" "as_tasks S ! j = (k, t)" using t(1) by (auto simp: in_set_conv_nth)
  show ?thesis
  proof (cases "ct_state t = Connected")
    case True
    let ?i = "InConnected (CCtl (Some (Status tx)) (Ok (), undefined))"
    have "step A t ?i = Done (t, [ReplyStatus tx True])"
      using True by (simp add: step_def step_connected_def step_connected_ctl_def)
    then have "\<exists>S1. async_do A (AsTask j ?i) S = Some S1 \<and> as_main S1 = as_main S \<and> tx \<in> fst ` set (as_status_replies S1)"
      using j t by (simp add: task_act_def small_step_def status_answers_def)
    then show ?thesis by blast
  next
    case False
    then have "\<exists>S1. async_do A (AsAnswer j) S = Some S1 \<and> as_main S1 = as_main S \<and> tx \<in> fst ` set (as_status_replies S1)"
      using j t by (simp add: answer_act_def status_answers_def)
    then show ?thesis by blast
  qed
qed

lemma close_step:
  assumes inv: "async_inv S" and t: "(k, t) \<in> set (as_tasks S)" "should_close t" "ct_pending_hw_ctl t = None"
    and room: "length (as_queue S) < EVENT_CAPACITY"
  shows "\<exists>a S1. async_do A a S = Some S1 \<and> as_main S1 = as_main S \<and> \<not> alive S1 k"
proof -
  obtain j where j: "j < length (as_tasks S)" "as_tasks S ! j = (k, t)" using t(1) by (auto simp: in_set_conv_nth)
  have "as_tasks S = take j (as_tasks S) @ (k, t) # drop (Suc j) (as_tasks S)"
    using j by (metis id_take_nth_drop)
  moreover have "distinct (map fst (as_tasks S))" by (rule async_invD(1) [OF inv])
  ultimately have "distinct (map fst (take j (as_tasks S) @ (k, t) # drop (Suc j) (as_tasks S)))" by metis
  then have "k \<notin> set (map fst (take j (as_tasks S) @ drop (Suc j) (as_tasks S)))" by auto
  then have "\<exists>S1. async_do A (AsClose j) S = Some S1 \<and> as_main S1 = as_main S \<and> \<not> alive S1 k"
    using j t room by (simp add: close_act_def alive_def image_Un)
  then show ?thesis by blast
qed

lemma list_proceeds:
  assumes inv: "async_inv S" and m: "as_main S = AwaitStatus ev sofar k tx"
    and free: "\<And>t. (k, t) \<in> set (as_tasks S) \<Longrightarrow> \<not> should_close t \<or> length (as_queue S) < EVENT_CAPACITY"
  shows "\<exists>as S' e. length as \<le> 2 \<and> async_run A as S = Some S' \<and> as_main S' = Listing ev (sofar @ [e])"
proof -
  have now: "\<exists>S' e. async_run A [AsStatus] S1 = Some S' \<and> as_main S' = Listing ev (sofar @ [e])"
    if "as_main S1 = as_main S" "tx \<in> fst ` set (as_status_replies S1) \<or> \<not> alive S1 k" for S1 :: "'a asystem"
  proof -
    from that(2) have "\<not> alive S1 k \<or> map_of (as_status_replies S1) tx \<noteq> None" by (metis replied_map_of option.distinct(1))
    then show ?thesis using m that(1) by (auto simp: main_status_def split: option.split)
  qed
  have two: ?thesis if "async_do A a S = Some S1" "as_main S1 = as_main S" "tx \<in> fst ` set (as_status_replies S1) \<or> \<not> alive S1 k" for a S1
  proof -
    from now [OF that(2,3)] obtain S' e where "async_run A [AsStatus] S1 = Some S'" "as_main S' = Listing ev (sofar @ [e])" by blast
    with that(1) show ?thesis by (intro exI [of _ "[a, AsStatus]"] exI [of _ S'] exI [of _ e]) simp
  qed
  from status_goes_on [OF inv m] show ?thesis
  proof (elim disjE exE conjE)
    fix e assume "main_status S = Some (S\<lparr>as_main := Listing ev (sofar @ [e])\<rparr>)"
    then show ?thesis
      by (intro exI [of _ "[AsStatus]"] exI [of _ "S\<lparr>as_main := Listing ev (sofar @ [e])\<rparr>"] exI [of _ e]) simp
  next
    fix t assume t: "(k, t) \<in> set (as_tasks S)" "as_chan S k = [Status tx]" "ct_pending_hw_ctl t = None"
    show ?thesis
    proof (cases "should_close t")
      case True
      with free [OF t(1)] close_step [OF inv t(1) True t(3)] two show ?thesis by blast
    next
      case False
      from status_answer_step [OF inv m t(1,2) False] two show ?thesis by blast
    qed
  qed
qed

section \<open>A device that does not answer\<close>

text \<open>
  The task has sent the request to the device and waits for the answer; what it then does, as long as the device does not
  answer and the connection is not lost: data from the device, and input from the terminal that is sent.
\<close>

definition quiet_in :: "termios_api \<Rightarrow> 'f ConnectionTask \<Rightarrow> 'f step_in \<Rightarrow> bool" where
  "quiet_in A t i =
     (case i of
        InConnected (CTcp (Some (Ok (ControlRes r)), f) w) \<Rightarrow> False
      | InConnected (CTcp (Some (Ok m), f) (Ok u)) \<Rightarrow> True
      | InConnected (CPty its (Ok u, f)) \<Rightarrow>
          (case AsyncPty_read A (ct_master t) (ct_pty_buf t) its of Some (Ok res, _) \<Rightarrow> True | _ \<Rightarrow> False)
      | _ \<Rightarrow> False)"

definition quiet_act :: "termios_api \<Rightarrow> nat \<Rightarrow> 'f asystem \<Rightarrow> 'f async_act \<Rightarrow> bool" where
  "quiet_act A k S a =
     (case a of
        AsTask j i \<Rightarrow> j < length (as_tasks S) \<and> fst (as_tasks S ! j) = k \<longrightarrow> quiet_in A (snd (as_tasks S ! j)) i
      | _ \<Rightarrow> True)"

fun quiet_run :: "termios_api \<Rightarrow> nat \<Rightarrow> 'f async_act list \<Rightarrow> 'f asystem \<Rightarrow> 'f asystem option" where
  "quiet_run A k [] S = Some S"
| "quiet_run A k (a # as) S =
     (if quiet_act A k S a
      then (case async_do A a S of None \<Rightarrow> None | Some S' \<Rightarrow> quiet_run A k as S') else None)"

definition waiting_device :: "'f asystem \<Rightarrow> nat \<Rightarrow> sender \<Rightarrow> bool" where
  "waiting_device S k tx \<longleftrightarrow> (\<exists>ev. as_main S = AwaitReset ev k tx) \<and> tx \<notin> fst ` set (as_ctl_replies S) \<and>
     (\<exists>t. (k, t) \<in> set (as_tasks S) \<and> ct_state t = Connected \<and> ct_pending_hw_ctl t = Some tx) \<and> as_chan S k = []"

text \<open>Nothing of what the clients can see changes, except that their commands pile up.\<close>

definition blocked_to :: "'f asystem \<Rightarrow> 'f asystem \<Rightarrow> bool" where
  "blocked_to S S' \<longleftrightarrow> as_main S' = as_main S \<and> as_state S' = as_state S \<and> as_responses S' = as_responses S \<and>
     (\<exists>more. as_queue S' = as_queue S @ more)"

lemma quiet_step:
  assumes "conn_inv t" "ct_state t = Connected" "quiet_in A t i" "step A t i = Done (t', es)"
  shows "ct_state t' = Connected \<and> ct_pending_hw_ctl t' = ct_pending_hw_ctl t \<and> ctl_replies es = [] \<and> taken i = []"
proof -
  have f: "tb_framed (ct_tcp t) \<noteq> None" using assms(1,2) by (simp add: conn_inv_def)
  from assms(3) consider
      (Device) m f w where "i = InConnected (CTcp (Some (Ok m), f) (Ok w))" "\<forall>r. m \<noteq> ControlRes r"
    | (Terminal) its u f res p b l where "i = InConnected (CPty its (Ok u, f))"
        "AsyncPty_read A (ct_master t) (ct_pty_buf t) its = Some (Ok res, p, b, l)"
    by (auto simp: quiet_in_def split: step_in.splits connected_in.splits option.splits prod.splits Result.splits DeviceMessage.splits)
  then show ?thesis
  proof cases
    case Device
    with assms f show ?thesis
      by (cases m) (auto simp: step_def step_connected_def step_connected_tcp_def TcpBridge_next_def ctl_replies_def Let_def
          slice_to_def split: if_splits)
  next
    case Terminal
    have snd: "send_or_reconnect u' m (Ok u, f) = Done (s, t2, es2) \<Longrightarrow> tb_framed (ct_tcp u') \<noteq> None \<Longrightarrow>
        s = None \<and> ct_state t2 = ct_state u' \<and> ct_pending_hw_ctl t2 = ct_pending_hw_ctl u' \<and> ctl_replies es2 = []"
      for u' :: "'a ConnectionTask" and m s t2 es2
      by (auto simp: send_or_reconnect_def TcpBridge_send_def ctl_replies_def split: option.splits)
    with assms f Terminal show ?thesis
      by (fastforce simp: step_def step_connected_def step_connected_pty_def Let_def ctl_replies_def
          split: PtyReadResult.splits option.splits outcome.splits)
  qed
qed

lemma task_unique:
  assumes "async_inv S" and "(k, t) \<in> set (as_tasks S)" and "j < length (as_tasks S)" and "as_tasks S ! j = (k, u)"
  shows "u = t"
  using assms async_invD(1) by (metis eq_key_imp_eq_value nth_mem)

lemma other_task_idle:
  assumes "async_inv S" and "as_main S = AwaitReset ev k tx" and "(k2, t) \<in> set (as_tasks S)" and "k2 \<noteq> k"
  shows "as_chan S k2 = [] \<and> ct_pending_hw_ctl t = None"
proof -
  from async_invD(2) [OF assms(1,3)] assms(2,4) have "ctl_open (as_chan S k2) t = []" "status_open (as_chan S k2) = []"
    by (auto simp: task_ok_def)
  moreover from this have "as_chan S k2 = []" by (rule open_lists(1))
  ultimately show ?thesis by (auto simp: ctl_open_def pending_ctl_def split: option.splits)
qed

lemma waiting_device_task_act:
  assumes inv: "async_inv S" and w: "waiting_device S k tx" and q: "quiet_act A k S (AsTask j i)"
    and a: "task_act A S j i = Some S'"
  shows "waiting_device S' k tx"
proof -
  obtain ev t where m: "as_main S = AwaitReset ev k tx" and t: "(k, t) \<in> set (as_tasks S)" "ct_state t = Connected"
    "ct_pending_hw_ctl t = Some tx" and rest: "tx \<notin> fst ` set (as_ctl_replies S)" "as_chan S k = []"
    using w by (auto simp: waiting_device_def)
  from a obtain k2 u u' es where u: "j < length (as_tasks S)" "as_tasks S ! j = (k2, u)" "\<not> should_close u" "admissible i"
    "small_step S k2 i" "step A u i = Done (u', es)"
    and S': "S' = S\<lparr>as_tasks := (as_tasks S)[j := (k2, u')], as_chan := (as_chan S)(k2 := drop (length (taken i)) (as_chan S k2)),
      as_ctl_replies := as_ctl_replies S @ ctl_replies es, as_status_replies := as_status_replies S @ status_answers es\<rparr>"
    by (auto simp: task_act_def split: if_splits prod.splits outcome.splits)
  have mem: "(k2, u) \<in> set (as_tasks S)" using u(1,2) by (metis nth_mem)
  have cu: "conn_inv u" using async_invD(2) [OF inv mem] by (simp add: task_ok_def)
  show ?thesis
  proof (cases "k2 = k")
    case True
    then have ut: "u = t" using task_unique [OF inv t(1) u(1)] u(2) by simp
    from q u(1,2) True have "quiet_in A u i" by (simp add: quiet_act_def)
    from quiet_step [OF cu _ this u(6)] ut t have n: "ct_state u' = Connected" "ct_pending_hw_ctl u' = Some tx"
      "ctl_replies es = []" by simp_all
    have "(k, u') \<in> set ((as_tasks S)[j := (k2, u')])" using u(1) True by (metis set_update_memI)
    then show ?thesis using n m rest True by (auto simp: waiting_device_def S')
  next
    case False
    from other_task_idle [OF inv m mem False] have idle: "as_chan S k2 = []" "ct_pending_hw_ctl u = None" by simp_all
    then have "taken i = []"
      using u(5) by (auto simp: small_step_def split: step_in.splits connected_in.splits option.splits)
    moreover have "step_facts A u i u' es"
      by (rule step_step_facts [OF cu _ u(4,6)]) (use u(3) in \<open>auto simp: should_close_def\<close>)
    ultimately have "map fst (ctl_replies es) = []"
      using idle(2) by (auto simp: step_facts_def ctl_replies_answered pending_ctl_def)
    moreover have "(k, t) \<in> set ((as_tasks S)[j := (k2, u')])"
    proof -
      obtain j' where "j' < length (as_tasks S)" "as_tasks S ! j' = (k, t)" using t(1) by (auto simp: in_set_conv_nth)
      moreover from this u(2) False have "j' \<noteq> j" by auto
      ultimately show ?thesis by (metis length_list_update nth_list_update_neq nth_mem)
    qed
    ultimately show ?thesis using m t rest False by (auto simp: waiting_device_def S')
  qed
qed

lemma waiting_device_step:
  assumes inv: "async_inv S" and w: "waiting_device S k tx" and q: "quiet_act A k S a" and a: "async_do A a S = Some S'"
  shows "waiting_device S' k tx \<and> blocked_to S S'"
proof -
  obtain ev t where m: "as_main S = AwaitReset ev k tx" and t: "(k, t) \<in> set (as_tasks S)" "ct_state t = Connected"
    "ct_pending_hw_ctl t = Some tx" and rest: "tx \<notin> fst ` set (as_ctl_replies S)" "as_chan S k = []"
    using w by (auto simp: waiting_device_def)
  have al: "alive S k" using t(1) by (auto simp: alive_task)
  have none: "map_of (as_ctl_replies S) tx = None" using rest(1) by (simp add: map_of_eq_None_iff)
  have holder: "u = t \<and> k2 = k \<or> as_chan S k2 = [] \<and> ct_pending_hw_ctl u = None"
    if "j < length (as_tasks S)" "as_tasks S ! j = (k2, u)" for j k2 u
    using other_task_idle [OF inv m, of k2 u] task_unique [OF inv t(1) that(1)] that by (metis nth_mem)
  show ?thesis
  proof (cases a)
    case (AsCommand msg cl)
    with a m t rest show ?thesis by (auto simp: waiting_device_def blocked_to_def split: if_splits)
  next
    case (AsTask j i)
    with waiting_device_task_act [OF inv w, of A j i S'] q a show ?thesis
      by (auto simp: blocked_to_def task_act_def split: if_splits prod.splits outcome.splits)
  next
    case (AsAnswer j)
    with a rest holder [of j] t show ?thesis by (auto simp: answer_act_def split: if_splits prod.splits list.splits)
  next
    case (AsFail j)
    with a holder [of j] t show ?thesis by (auto simp: fail_act_def should_close_def split: if_splits prod.splits)
  next
    case (AsClose j)
    with a obtain k2 u where u: "j < length (as_tasks S)" "as_tasks S ! j = (k2, u)" "should_close u"
      and S': "S' = S\<lparr>as_tasks := take j (as_tasks S) @ drop (Suc j) (as_tasks S), as_chan := (as_chan S)(k2 := []),
        as_queue := as_queue S @ notices (snd (shutdown u))\<rparr>"
      by (auto simp: close_act_def split: if_splits prod.splits)
    have "u \<noteq> t" using u(3) t(2) by (auto simp: should_close_def)
    moreover have "as_tasks S = take j (as_tasks S) @ (k2, u) # drop (Suc j) (as_tasks S)" using u(1,2) by (metis id_take_nth_drop)
    then have "set (as_tasks S) = insert (k2, u) (set (take j (as_tasks S) @ drop (Suc j) (as_tasks S)))"
      by (metis Un_insert_right list.simps(15) set_append)
    ultimately have "(k, t) \<in> set (as_tasks S')" using t(1) by (simp add: S')
    then show ?thesis using m t rest by (auto simp: waiting_device_def blocked_to_def S')
  qed (use a m none al in \<open>auto simp: main_receive_def main_list_def main_status_def main_reset_def\<close>)
qed

lemma blocked_to_trans: "blocked_to S S1 \<Longrightarrow> blocked_to S1 S2 \<Longrightarrow> blocked_to S S2"
  by (auto simp: blocked_to_def)

lemma waiting_device_run:
  "async_inv S \<Longrightarrow> waiting_device S k tx \<Longrightarrow> quiet_run A k as S = Some S' \<Longrightarrow> waiting_device S' k tx \<and> blocked_to S S'"
proof (induction "as" arbitrary: S)
  case Nil
  then show ?case by (simp add: blocked_to_def)
next
  case (Cons a "as")
  from Cons.prems(3) obtain S1 where S1: "quiet_act A k S a" "async_do A a S = Some S1" "quiet_run A k as S1 = Some S'"
    by (auto split: if_splits option.splits)
  from waiting_device_step [OF Cons.prems(1,2) S1(1,2)] Cons.IH [OF async_do_inv [OF Cons.prems(1) S1(2)] _ S1(3)]
  show ?case using blocked_to_trans by blast
qed

section \<open>A task that cannot announce its end\<close>

definition stuck_close :: "'f asystem \<Rightarrow> bool" where
  "stuck_close S \<longleftrightarrow> (\<exists>ev sofar k tx t. as_main S = AwaitStatus ev sofar k tx \<and> (k, t) \<in> set (as_tasks S) \<and> should_close t \<and>
     as_chan S k = [Status tx]) \<and> length (as_queue S) = EVENT_CAPACITY"

lemma other_task_idle_status:
  assumes "async_inv S" and "as_main S = AwaitStatus ev sofar k tx" and "(k2, t) \<in> set (as_tasks S)"
  shows "ct_pending_hw_ctl t = None \<and> (k2 \<noteq> k \<longrightarrow> as_chan S k2 = [])"
proof -
  from async_invD(2) [OF assms(1,3)] assms(2) have o: "ctl_open (as_chan S k2) t = []" "k2 \<noteq> k \<Longrightarrow> status_open (as_chan S k2) = []"
    by (auto simp: task_ok_def)
  then show ?thesis using open_lists(1) by (fastforce simp: ctl_open_def pending_ctl_def split: option.splits)
qed

lemma stuck_close_step:
  assumes inv: "async_inv S" and st: "stuck_close S" and a: "async_do A a S = Some S'"
  shows "stuck_close S' \<and> blocked_to S S'"
proof -
  obtain ev sofar k tx t where m: "as_main S = AwaitStatus ev sofar k tx" and t: "(k, t) \<in> set (as_tasks S)" "should_close t"
    "as_chan S k = [Status tx]" and full: "length (as_queue S) = EVENT_CAPACITY"
    using st by (auto simp: stuck_close_def)
  have al: "alive S k" using t(1) by (auto simp: alive_task)
  have "tx \<notin> fst ` set (as_status_replies S)"
    using async_invD(2) [OF inv t(1)] m t(3) by (auto simp: task_ok_def status_open_def)
  then have none: "map_of (as_status_replies S) tx = None" by (simp add: map_of_eq_None_iff)
  have other: "ct_pending_hw_ctl u = None \<and> (as_chan S k2 = [] \<and> k2 \<noteq> k \<or> should_close u)"
    if "j < length (as_tasks S)" "as_tasks S ! j = (k2, u)" for j k2 u
    using other_task_idle_status [OF inv m, of k2 u] task_unique [OF inv t(1) that(1)] that t(2) by (metis nth_mem)
  show ?thesis
  proof (cases a)
    case (AsTask j i)
    with a obtain k2 u u' es where u: "j < length (as_tasks S)" "as_tasks S ! j = (k2, u)" "\<not> should_close u"
      and S': "S' = S\<lparr>as_tasks := (as_tasks S)[j := (k2, u')], as_chan := (as_chan S)(k2 := drop (length (taken i)) (as_chan S k2)),
        as_ctl_replies := as_ctl_replies S @ ctl_replies es, as_status_replies := as_status_replies S @ status_answers es\<rparr>"
      by (auto simp: task_act_def split: if_splits prod.splits outcome.splits)
    have k2: "k2 \<noteq> k" using other [OF u(1,2)] u(3) by blast
    obtain j' where "j' < length (as_tasks S)" "as_tasks S ! j' = (k, t)" using t(1) by (auto simp: in_set_conv_nth)
    moreover from this u(2) k2 have "j' \<noteq> j" by auto
    ultimately have "(k, t) \<in> set (as_tasks S')" by (simp add: S') (metis length_list_update nth_list_update_neq nth_mem)
    then show ?thesis using m t full k2 by (auto simp: stuck_close_def blocked_to_def S')
  next
    case (AsAnswer j)
    with a other [of j] show ?thesis by (auto simp: answer_act_def split: if_splits prod.splits list.splits)
  next
    case (AsFail j)
    with a other [of j] show ?thesis by (auto simp: fail_act_def split: if_splits prod.splits)
  qed (use a m none al full in \<open>auto simp: main_receive_def main_list_def main_status_def main_reset_def close_act_def
      split: if_splits prod.splits\<close>)
qed

lemma stuck_close_run:
  "async_inv S \<Longrightarrow> stuck_close S \<Longrightarrow> async_run A as S = Some S' \<Longrightarrow> stuck_close S' \<and> blocked_to S S'"
proof (induction "as" arbitrary: S)
  case Nil
  then show ?case by (simp add: blocked_to_def)
next
  case (Cons a "as")
  from Cons.prems(3) obtain S1 where S1: "async_do A a S = Some S1" "async_run A as S1 = Some S'" by (auto split: option.splits)
  from stuck_close_step [OF Cons.prems(1,2) S1(1)] Cons.IH [OF async_do_inv [OF Cons.prems(1) S1(1)] _ S1(2)]
  show ?case using blocked_to_trans by blast
qed

section \<open>Examples\<close>

text \<open>A connection is added and its task connects; then a client asks for a reset and the task sends the request.\<close>

definition async_env :: "nat \<Rightarrow> handler_env" where
  "async_env n = demo_env\<lparr>he_add := demo_add\<lparr>ae_shutdown_ch := n, ae_ctl_ch := n\<rparr>\<rparr>"

definition added_acts :: "unit async_act list" where
  "added_acts =
     [AsCommand (ReqAdd (lit ''a'') 0x7F000001 15113) 100, AsReceive (async_env 0),
      AsTask 0 (InReconnecting [WSleepDone] demo_connect)]"

definition asking_acts :: "unit async_act list" where
  "asking_acts = added_acts @
     [AsCommand (ReqReset (lit ''a'')) 101, AsReceive (async_env 1),
      AsTask 0 (InConnected (CCtl (Some (HardwareControl CtlReset 1)) (Ok (), ())))]"

definition asking :: "unit asystem" where
  "asking = the (async_run linux_termios asking_acts async_init)"

lemma asking_run: "async_run linux_termios asking_acts async_init = Some asking"
proof -
  have "async_run linux_termios asking_acts async_init \<noteq> None" by code_simp
  then show ?thesis by (auto simp: asking_def)
qed

definition list_acts :: "unit async_act list" where
  "list_acts = added_acts @ [AsCommand ReqList 101, AsReceive (async_env 1), AsList (async_env 1)]"

text \<open>The terminal of the connection fails while the event channel is full.\<close>

definition bad_packet :: pty_iter where
  "bad_packet = demo_packet\<lparr>it_readable := Err (IoError ConnectionAborted [])\<rparr>"

definition stuck_acts :: "unit async_act list" where
  "stuck_acts = added_acts @ replicate 128 (AsCommand ReqList 101) @
     [AsTask 0 (InConnected (CPty [bad_packet] (Ok (), ()))), AsReceive (async_env 1), AsCommand ReqList 102, AsList (async_env 1)]"

lemma stuck_reached: "\<exists>S. async_run linux_termios stuck_acts async_init = Some S \<and> stuck_close S"
proof -
  have "case async_run linux_termios stuck_acts async_init of None \<Rightarrow> False
     | Some S \<Rightarrow> (case as_main S of AwaitStatus ev sofar k tx \<Rightarrow>
         list_ex (\<lambda>(k', t). k' = k \<and> should_close t) (as_tasks S) \<and> as_chan S k = [Status tx] | _ \<Rightarrow> False) \<and>
         length (as_queue S) = EVENT_CAPACITY"
    by code_simp
  then show ?thesis by (auto simp: stuck_close_def list_ex_iff split: option.splits main_wait.splits)
qed

lemma async_run_some: "async_run A as S \<noteq> None \<Longrightarrow> async_run A as S = Some (the (async_run A as S))"
  by simp

section \<open>Properties\<close>

text \<open>C9. No request is lost between the main loop and the connection tasks. In every state the daemon can
  reach no request channel holds more than one request, so that sending into a channel of capacity 8 never
  blocks. The main loop waits for an event with an empty event channel, or it can go on at once, or the answer
  it waits for is owed by a running task: the request is the one entry of the channel of that task, or it is
  the control request the task has sent to its device.\<close>

theorem async_requests_owned:
  assumes "async_run A as async_init = Some S"
  shows "(\<forall>k. length (as_chan S k) \<le> 1) \<and>
    (as_main S = Receiving \<and> as_queue S = [] \<or> can_go_on A S \<or>
     (\<exists>ev sofar k tx t. as_main S = AwaitStatus ev sofar k tx \<and> (k, t) \<in> set (as_tasks S) \<and> as_chan S k = [Status tx]) \<or>
     (\<exists>ev k tx t. as_main S = AwaitReset ev k tx \<and> (k, t) \<in> set (as_tasks S) \<and>
        (as_chan S k = [HardwareControl CtlReset tx] \<or> as_chan S k = [] \<and> ct_pending_hw_ctl t = Some tx)))"
proof (rule conjI)
  have inv: "async_inv S" by (rule async_reach_inv [OF assms])
  show "\<forall>k. length (as_chan S k) \<le> 1" using chan_bound [OF inv] by blast
  show "as_main S = Receiving \<and> as_queue S = [] \<or> can_go_on A S \<or>
     (\<exists>ev sofar k tx t. as_main S = AwaitStatus ev sofar k tx \<and> (k, t) \<in> set (as_tasks S) \<and> as_chan S k = [Status tx]) \<or>
     (\<exists>ev k tx t. as_main S = AwaitReset ev k tx \<and> (k, t) \<in> set (as_tasks S) \<and>
        (as_chan S k = [HardwareControl CtlReset tx] \<or> as_chan S k = [] \<and> ct_pending_hw_ctl t = Some tx))"
  proof (cases "as_main S")
    case Receiving
    then show ?thesis
      using receive_goes_on [OF inv Receiving, of _ _ A] by (cases "as_queue S") (auto simp: can_go_on_def)
  next
    case (Listing ev sofar)
    then show ?thesis using list_goes_on [OF inv Listing, of A] unfolding can_go_on_def by blast
  next
    case (AwaitStatus ev sofar k tx)
    then show ?thesis using status_goes_on [OF inv AwaitStatus] unfolding can_go_on_def by blast
  next
    case (AwaitReset ev k tx)
    then show ?thesis using reset_goes_on [OF inv AwaitReset, of A] unfolding can_go_on_def by blast
  qed
qed

theorem async_requests_owned_witness:
  "as_main asking = AwaitReset (CliCommand (ReqReset (lit ''a'')) 101) 0 1 \<and> length (as_chan asking 0) \<le> 1 \<and>
   (can_go_on linux_termios asking \<or> (\<exists>t. (0, t) \<in> set (as_tasks asking) \<and>
      (as_chan asking 0 = [HardwareControl CtlReset 1] \<or> as_chan asking 0 = [] \<and> ct_pending_hw_ctl t = Some 1)))"
proof -
  have m: "as_main asking = AwaitReset (CliCommand (ReqReset (lit ''a'')) 101) 0 1" by code_simp
  with async_requests_owned [OF asking_run] show ?thesis by auto
qed



text \<open>C17. A device that does not answer a reset blocks the daemon. Once the main loop waits for the answer to a
  reset that the task has passed on to its device, then whatever clients, other tasks and the terminal do, and
  whatever the device sends other than the answer, as long as the connection holds the main loop stays where it
  is: no client is answered, no connection is added or removed, and the commands of the clients pile up in the
  event channel. There is no timeout on the way.\<close>

theorem silent_device_blocks_daemon:
  assumes "async_run A as async_init = Some S" and "waiting_device S k tx" and "quiet_run A k later S = Some S'"
  shows "waiting_device S' k tx \<and> as_main S' = as_main S \<and> as_state S' = as_state S \<and> as_responses S' = as_responses S \<and>
    (\<exists>waiting. as_queue S' = as_queue S @ waiting)"
  using waiting_device_run [OF async_reach_inv [OF assms(1)] assms(2,3)] by (simp add: blocked_to_def)

definition quiet_acts :: "unit async_act list" where
  "quiet_acts =
     [AsCommand (ReqRemove (lit ''a'')) 102,
      AsTask 0 (InConnected (CTcp (Some (Ok (Data 1 (65 # replicate 254 0))), ()) (Ok ()))),
      AsCommand ReqList 103]"

theorem silent_device_blocks_daemon_witness:
  "\<exists>S'. quiet_run linux_termios 0 quiet_acts asking = Some S' \<and> as_main S' = as_main asking \<and>
     as_responses S' = as_responses asking"
proof -
  let ?S' = "the (quiet_run linux_termios 0 quiet_acts asking)"
  have r: "quiet_run linux_termios 0 quiet_acts asking = Some ?S'"
  proof -
    have "quiet_run linux_termios 0 quiet_acts asking \<noteq> None" by code_simp
    then show ?thesis by simp
  qed
  have "as_main asking = AwaitReset (CliCommand (ReqReset (lit ''a'')) 101) 0 1 \<and> as_ctl_replies asking = [] \<and>
      list_ex (\<lambda>(k, t). k = 0 \<and> ct_state t = Connected \<and> ct_pending_hw_ctl t = Some 1) (as_tasks asking) \<and> as_chan asking 0 = []"
    by code_simp
  then have w: "waiting_device asking 0 1" by (auto simp: waiting_device_def list_ex_iff)
  from silent_device_blocks_daemon [OF asking_run w r] r show ?thesis by blast
qed

text \<open>C18. The daemon can deadlock. A task that ends announces it on the event channel while it still holds its
  request channel open. When the event channel is full and the main loop, handling a list command, asks that
  very task for its status, neither can go on: the schedule below reaches such a state, and from it every
  schedule leaves the main loop where it is, the registry and the answers of the clients unchanged.\<close>

theorem daemon_deadlock:
  "\<exists>S. async_run linux_termios stuck_acts async_init = Some S \<and> length (as_queue S) = EVENT_CAPACITY \<and>
     (\<forall>later. case async_run linux_termios later S of None \<Rightarrow> True
        | Some S' \<Rightarrow> as_main S' = as_main S \<and> as_main S' \<noteq> Receiving \<and> as_state S' = as_state S \<and>
            as_responses S' = as_responses S \<and> as_queue S' = as_queue S)"
proof -
  obtain S where S: "async_run linux_termios stuck_acts async_init = Some S" "stuck_close S" using stuck_reached by blast
  have "stuck_close S' \<and> blocked_to S S'" if "async_run linux_termios later S = Some S'" for later S'
    by (rule stuck_close_run [OF async_reach_inv [OF S(1)] S(2) that])
  then show ?thesis using S by (fastforce simp: stuck_close_def blocked_to_def split: option.split)
qed

end
