(* ===== verification/Daemon_Refine.thy ===== *)
theory Daemon_Refine
  imports Daemon_Async
begin

text \<open>
  \<open>Daemon_Async\<close> refines \<open>Daemon_System\<close>: every step of the daemon with its request channels is a step of the
  daemon in which the tasks' answers are arbitrary, or changes nothing that the latter sees. A query (\<open>list\<close>, \<open>reset\<close>)
  is one step there, taken when the main loop receives it. So what is proved of the registry, the tasks and the event
  channel in \<open>Daemon_System\<close> holds with the channels.
\<close>

section \<open>Simulation\<close>

definition async_step :: "termios_api \<Rightarrow> 'f asystem \<Rightarrow> 'f asystem \<Rightarrow> bool" where
  "async_step A S S' \<longleftrightarrow> (\<exists>a. async_do A a S = Some S')"

lemma async_run_steps: "async_run A as S = Some S' \<Longrightarrow> (async_step A)\<^sup>*\<^sup>* S S'"
proof (induction "as" arbitrary: S)
  case (Cons a "as")
  then show ?case
    by (auto simp: async_step_def split: option.splits intro: converse_rtranclp_into_rtranclp)
qed simp

text \<open>A task that is shutting down may already have failed its pending request.\<close>

definition same_task :: "nat \<times> 'f ConnectionTask \<Rightarrow> nat \<times> 'f ConnectionTask \<Rightarrow> bool" where
  "same_task p q \<longleftrightarrow> fst p = fst q \<and> (snd p = snd q \<or> should_close (snd p) \<and> snd q = fst (fail_pending_ctl (snd p)))"

definition abstracts :: "'f asystem \<Rightarrow> 'f system \<Rightarrow> bool" where
  "abstracts S T \<longleftrightarrow> async_inv S \<and> sy_state T = as_state S \<and> sy_signalled T = as_signalled S \<and> sy_queue T = as_queue S \<and>
     sy_fresh T \<le> as_fresh S \<and> list_all2 same_task (sy_tasks T) (as_tasks S)"

text \<open>What the registry can know of a task.\<close>

definition task_view :: "nat \<times> 'f ConnectionTask \<Rightarrow> nat \<times> rstring \<times> bool" where
  "task_view p = (fst p, ct_name (snd p), should_close (snd p))"

lemma same_task_refl [simp]: "same_task p p"
  by (simp add: same_task_def)

lemma same_task_view: "same_task p q \<Longrightarrow> task_view p = task_view q"
  by (auto simp: same_task_def task_view_def fail_pending_ctl_def should_close_def split: option.splits)

lemma same_task_close: "same_task p q \<Longrightarrow> should_close (snd p) = should_close (snd q) \<and> ct_name (snd p) = ct_name (snd q)"
  by (auto simp: same_task_def fail_pending_ctl_def should_close_def split: option.splits)

text \<open>Queries change neither the registry nor the tasks.\<close>

fun is_query :: "DaemonEvent \<Rightarrow> bool" where
  "is_query (CliCommand ReqList _) = True"
| "is_query (CliCommand (ReqReset _) _) = True"
| "is_query _ = False"

lemma query_same:
  assumes "is_query ev" and "main_step A s (Event ev env) = Done (s', es)"
  shows "s' = s \<and> spawned_tasks es = [] \<and> signals es = []"
proof -
  obtain msg tx where ev: "ev = CliCommand msg tx" using assms(1) by (cases ev rule: is_query.cases) auto
  with assms obtain r es0 where h: "handle_daemon_request A s msg env = Done (r, s', es0)"
    and es: "es = es0 @ [Respond tx r]"
    by (auto simp: main_step_def split: outcome.splits)
  show ?thesis
  proof (cases msg)
    case ReqList
    with h obtain l hs where "list_loop (conns s) (he_list env) = Some (l, hs)" "s' = s" "es0 = map Handle hs"
      by (auto simp: handle_daemon_request_def State_list_def split: option.splits)
    with list_loop_signals es show ?thesis by simp
  next
    case (ReqReset n)
    obtain r hs where hs: "State_send_hardware_ctl s n CtlReset (he_reset env) = (r, hs)"
      by (cases "State_send_hardware_ctl s n CtlReset (he_reset env)")
    with h ReqReset have "s' = s" "es0 = map Handle hs"
      by (auto simp: handle_daemon_request_def split: option.splits Result.splits DeviceControlResponse.splits)
    with reset_signals [OF hs] es show ?thesis by simp
  qed (use assms(1) ev in auto)
qed

lemma abstract_query:
  fixes T :: "'f system"
  assumes "sy_queue T = ev # evs" and "is_query ev"
  shows "sys_step A T (T\<lparr>sy_queue := evs\<rparr>)"
proof -
  let ?env = "answering_env (sy_fresh T) (sy_state T)"
  have "length (conns (sy_state T)) \<le> length (he_list ?env)" by (simp add: answering_env_def)
  from main_step_total [OF this] obtain s' and es :: "'f daemon_effect list"
    where m: "main_step A (sy_state T) (Event ev ?env) = Done (s', es)" by blast
  from sys_step.main [OF assms(1) refl _ m] query_same [OF assms(2) m] show ?thesis
    by (cases T) (simp add: answering_env_def next_fresh_def)
qed

text \<open>The end of an event that is no query is the main loop's step; the end of a query changes nothing that is visible.\<close>

lemma finish_abstract:
  assumes "abstracts S0 T" and "async_inv S'" and "S = S0\<lparr>as_queue := evs\<rparr>" and "as_queue S0 = ev # evs"
    and "finish_event A S ev env = Some S'"
  shows "\<exists>T'. sys_step A T T' \<and> abstracts S' T'"
proof -
  from assms(5) obtain s' es where ch: "ae_shutdown_ch (he_add env) = as_fresh S"
    and m: "main_step A (as_state S) (Event ev env) = Done (s', es)"
    and S': "S' = S\<lparr>as_state := s', as_tasks := as_tasks S @ map (Pair (as_fresh S)) (spawned_tasks es),
                        as_signalled := as_signalled S @ signals es, as_main := Receiving,
                        as_responses := as_responses S @ responses es, as_fresh := Suc (as_fresh S)\<rparr>"
    by (auto simp: finish_event_def split: if_splits outcome.splits)
  have T: "sy_queue T = ev # evs" "sy_state T = as_state S" "sy_fresh T \<le> as_fresh S"
    using assms by (simp_all add: abstracts_def)
  from sys_step.main [OF T(1) ch T(3)] m T(2) show ?thesis
    using assms(1,2) by (fastforce simp: abstracts_def S' assms(3) next_fresh_def list_all2_appendI list.rel_refl)
qed

lemma finish_query:
  assumes "abstracts S T" and "async_inv S'" and "is_query ev" and "finish_event A S ev env = Some S'"
  shows "abstracts S' T"
proof -
  from assms(4) obtain s' es where m: "main_step A (as_state S) (Event ev env) = Done (s', es)"
    and S': "S' = S\<lparr>as_state := s', as_tasks := as_tasks S @ map (Pair (as_fresh S)) (spawned_tasks es),
                        as_signalled := as_signalled S @ signals es, as_main := Receiving,
                        as_responses := as_responses S @ responses es, as_fresh := Suc (as_fresh S)\<rparr>"
    by (auto simp: finish_event_def split: if_splits outcome.splits)
  with query_same [OF assms(3) m] assms(1,2) show ?thesis by (simp add: abstracts_def S')
qed

lemma invisible:
  assumes "abstracts S T" and "async_inv S'" and "as_state S' = as_state S" and "as_tasks S' = as_tasks S"
    and "as_signalled S' = as_signalled S" and "as_queue S' = as_queue S" and "as_fresh S \<le> as_fresh S'"
  shows "abstracts S' T"
  using assms by (auto simp: abstracts_def)

lemma ask_invisible:
  "abstracts S T \<Longrightarrow> async_inv S' \<Longrightarrow> ask S k req pc = Some S' \<Longrightarrow> abstracts S' T"
  by (auto simp: ask_def abstracts_def split: if_splits)

lemma receive_abstract:
  assumes abs: "abstracts S T" and inv: "async_inv S'" and rcv: "main_receive A S env = Some S'"
  shows "\<exists>T'. sys_step A T T' \<and> abstracts S' T'"
proof -
  from rcv obtain ev evs where q: "as_queue S = ev # evs"
    by (auto simp: main_receive_def split: main_wait.splits list.splits)
  let ?S = "S\<lparr>as_queue := evs\<rparr>"
  have popped: "sys_step A T (T\<lparr>sy_queue := evs\<rparr>) \<and> abstracts ?S (T\<lparr>sy_queue := evs\<rparr>)" if "is_query ev"
    using abstract_query [OF _ that] abs q by (auto simp: abstracts_def queue_inv)
  from rcv have "as_main S = Receiving" by (auto simp: main_receive_def split: main_wait.splits)
  with rcv show ?thesis using q
  proof (cases rule: main_receive_cases)
    case List
    then have "abstracts S' (T\<lparr>sy_queue := evs\<rparr>)"
      by (intro invisible [OF conjunct2 [OF popped] inv]) simp_all
    then show ?thesis using popped List by auto
  next
    case (Ask k req n tx)
    then show ?thesis using popped ask_invisible [OF _ inv Ask(2)] by auto
  next
    case Finish
    then show ?thesis using finish_abstract [OF abs inv refl q] by blast
  qed
qed

lemma list_abstract:
  assumes abs: "abstracts S T" and inv: "async_inv S'" and ls: "main_list A S env = Some S'"
  shows "abstracts S' T"
proof -
  from ls obtain ev sofar where m: "as_main S = Listing ev sofar" by (auto simp: main_list_def split: main_wait.splits)
  have "event_ok (as_state S) (as_main S)" using abs async_invD(5) by (auto simp: abstracts_def)
  with m have query: "is_query ev" by auto
  from ls m consider (Ask) k req pc where "ask S k req pc = Some S'"
    | (Next) more where "S' = S\<lparr>as_main := Listing ev more\<rparr>"
    | (Finish) env' where "finish_event A S ev env' = Some S'"
    by (auto simp: main_list_def split: list.splits if_splits)
  then show ?thesis
  proof cases
    case Ask
    then show ?thesis by (rule ask_invisible [OF abs inv])
  next
    case Next
    then show ?thesis by (intro invisible [OF abs inv]) simp_all
  next
    case Finish
    then show ?thesis by (rule finish_query [OF abs inv query])
  qed
qed

lemma reset_abstract:
  assumes abs: "abstracts S T" and inv: "async_inv S'" and rs: "main_reset A S env = Some S'"
  shows "abstracts S' T"
proof -
  from rs obtain ev k tx where m: "as_main S = AwaitReset ev k tx" by (auto simp: main_reset_def split: main_wait.splits)
  have "event_ok (as_state S) (as_main S)" using abs async_invD(5) by (auto simp: abstracts_def)
  with m have query: "is_query ev" by auto
  from rs m obtain env' where "finish_event A S ev env' = Some S'"
    by (auto simp: main_reset_def split: option.splits if_splits)
  then show ?thesis by (rule finish_query [OF abs inv query])
qed

text \<open>The task at a position, in both systems.\<close>

lemma abstract_task:
  assumes "abstracts S T" and "j < length (as_tasks S)" and "as_tasks S ! j = (k, t)"
  obtains t0 where "j < length (sy_tasks T)" "sy_tasks T ! j = (k, t0)" "same_task (k, t0) (k, t)"
proof -
  from assms have "j < length (sy_tasks T)" "same_task (sy_tasks T ! j) (k, t)"
    by (auto simp: abstracts_def list_all2_conv_all_nth)
  then show thesis using that [of "snd (sy_tasks T ! j)"] by (cases "sy_tasks T ! j") (auto simp: same_task_def)
qed

lemma task_abstract:
  assumes abs: "abstracts S T" and inv: "async_inv S'" and act: "task_act A S j i = Some S'"
  shows "\<exists>T'. sys_step A T T' \<and> abstracts S' T'"
proof -
  from act obtain k t t' es where t: "j < length (as_tasks S)" "as_tasks S ! j = (k, t)" "\<not> should_close t" "admissible i"
    "takes_shutdown i \<longrightarrow> k \<in> set (as_signalled S)" "step A t i = Done (t', es)"
    and S': "as_tasks S' = (as_tasks S)[j := (k, t')]" "as_state S' = as_state S" "as_signalled S' = as_signalled S"
      "as_queue S' = as_queue S" "as_fresh S' = as_fresh S"
    by (auto simp: task_act_def split: if_splits prod.splits outcome.splits)
  obtain t0 where t0: "j < length (sy_tasks T)" "sy_tasks T ! j = (k, t0)" "same_task (k, t0) (k, t)"
    using abstract_task [OF abs t(1,2)] .
  have "t0 = t" using t0(3) t(3) same_task_close [OF t0(3)] by (auto simp: same_task_def)
  with t t0 abs have "sys_exec A T (ActTask j i) = Some (T\<lparr>sy_tasks := (sy_tasks T)[j := (k, t')]\<rparr>)"
    by (simp add: sys_exec_def abstracts_def)
  moreover have "abstracts S' (T\<lparr>sy_tasks := (sy_tasks T)[j := (k, t')]\<rparr>)"
    using abs inv S' by (simp add: abstracts_def list_all2_update_cong)
  ultimately show ?thesis using sys_exec_step by blast
qed

lemma fail_abstract:
  assumes abs: "abstracts S T" and inv: "async_inv S'" and act: "fail_act S j = Some S'"
  shows "abstracts S' T"
proof -
  from act obtain k t where t: "j < length (as_tasks S)" "as_tasks S ! j = (k, t)" "should_close t" "ct_pending_hw_ctl t \<noteq> None"
    and S': "as_tasks S' = (as_tasks S)[j := (k, fst (fail_pending_ctl t))]" "as_state S' = as_state S"
      "as_signalled S' = as_signalled S" "as_queue S' = as_queue S" "as_fresh S' = as_fresh S"
    by (auto simp: fail_act_def split: if_splits prod.splits)
  obtain t0 where t0: "j < length (sy_tasks T)" "sy_tasks T ! j = (k, t0)" "same_task (k, t0) (k, t)"
    using abstract_task [OF abs t(1,2)] .
  have "t0 = t" using t0(3) t(4) by (auto simp: same_task_def fail_pending_ctl_def split: option.splits)
  with t(3) have "same_task (k, t0) (k, fst (fail_pending_ctl t))" by (simp add: same_task_def)
  then have "list_all2 same_task ((sy_tasks T)[j := (k, t0)]) (as_tasks S')"
    using abs S'(1) by (simp add: abstracts_def list_all2_update_cong)
  moreover have "(sy_tasks T)[j := (k, t0)] = sy_tasks T" using t0(2) by (metis list_update_id)
  ultimately show ?thesis using abs inv S' by (simp add: abstracts_def)
qed

lemma close_abstract:
  assumes abs: "abstracts S T" and inv: "async_inv S'" and act: "close_act S j = Some S'"
  shows "\<exists>T'. sys_step A T T' \<and> abstracts S' T'"
proof -
  from act obtain k t where t: "j < length (as_tasks S)" "as_tasks S ! j = (k, t)" "should_close t"
    "length (as_queue S) < EVENT_CAPACITY"
    and S': "as_tasks S' = take j (as_tasks S) @ drop (Suc j) (as_tasks S)" "as_state S' = as_state S"
      "as_signalled S' = as_signalled S" "as_queue S' = as_queue S @ notices (snd (shutdown t))" "as_fresh S' = as_fresh S"
    by (auto simp: close_act_def split: if_splits prod.splits)
  obtain t0 where t0: "j < length (sy_tasks T)" "sy_tasks T ! j = (k, t0)" "same_task (k, t0) (k, t)"
    using abstract_task [OF abs t(1,2)] .
  let ?T = "T\<lparr>sy_tasks := take j (sy_tasks T) @ drop (Suc j) (sy_tasks T), sy_queue := sy_queue T @ notices (snd (shutdown t0))\<rparr>"
  have "sys_exec A T (ActClose j) = Some ?T"
    using t t0 abs same_task_close [OF t0(3)] by (simp add: sys_exec_def abstracts_def)
  moreover have "abstracts S' ?T"
    using abs inv S' same_task_close [OF t0(3)]
    by (simp add: abstracts_def notices_shutdown list_all2_appendI list_all2_takeI list_all2_dropI)
  ultimately show ?thesis using sys_exec_step by blast
qed

lemma async_do_abstract:
  assumes abs: "abstracts S T" and a: "async_do A a S = Some S'"
  shows "abstracts S' T \<or> (\<exists>T'. sys_step A T T' \<and> abstracts S' T')"
proof -
  have inv: "async_inv S'" using async_do_inv [OF _ a] abs by (simp add: abstracts_def)
  show ?thesis
  proof (cases a)
    case (AsCommand msg tx)
    with a abs inv have "sys_exec A T (ActCommand msg tx) = Some (T\<lparr>sy_queue := sy_queue T @ [CliCommand msg tx]\<rparr>)"
      "abstracts S' (T\<lparr>sy_queue := sy_queue T @ [CliCommand msg tx]\<rparr>)"
      by (auto simp: sys_exec_def abstracts_def split: if_splits)
    then show ?thesis using sys_exec_step by blast
  next
    case AsStatus
    with a have "abstracts S' T"
      by (intro invisible [OF abs inv]) (auto simp: main_status_def split: main_wait.splits option.splits if_splits)
    then show ?thesis ..
  next
    case (AsAnswer j)
    with a have "abstracts S' T"
      by (intro invisible [OF abs inv]) (auto simp: answer_act_def split: prod.splits list.splits if_splits)
    then show ?thesis ..
  qed (use a in \<open>simp_all add: receive_abstract [OF abs inv] list_abstract [OF abs inv] reset_abstract [OF abs inv]
      task_abstract [OF abs inv] fail_abstract [OF abs inv] close_abstract [OF abs inv]\<close>)
qed

interpretation async: simulation "async_step A" "sys_step A" abstracts for A
proof
  fix S T S'
  assume "abstracts S T" and "async_step A S S'"
  then have "abstracts S' T \<or> (\<exists>T'. sys_step A T T' \<and> abstracts S' T')"
    unfolding async_step_def by (metis async_do_abstract)
  then show "\<exists>T'. (sys_step A)\<^sup>*\<^sup>* T T' \<and> abstracts S' T'" by blast
qed

lemma async_reach_abstract:
  assumes "async_run A as async_init = Some S"
  shows "\<exists>T. sys_reach A T \<and> abstracts S T"
proof -
  have "abstracts async_init system_init"
    by (simp add: abstracts_def async_init_inv) (simp add: async_init_def system_init_def)
  from async.run_simulated [OF async_run_steps [OF assms] this] show ?thesis .
qed

section \<open>Properties\<close>

text \<open>C8. The daemon with its request channels refines the daemon with arbitrary answers: to every state it can reach there is
  a reachable state of the simpler system with the same registry, the same event channel, the same signals, and the same
  tasks, by channel, name and whether they are closing. So in every such state the names are distinct, every live task belongs
  to a registered connection or was told to stop, and every registered connection has a task that was not told to stop,
  or the notice of its end is in the event channel.\<close>

theorem async_refines_system:
  fixes S :: "'f asystem"
  assumes "async_run A as async_init = Some S"
  shows "(\<exists>T :: 'f system. sys_reach A T \<and> sy_state T = as_state S \<and> sy_queue T = as_queue S \<and> sy_signalled T = as_signalled S \<and>
      map task_view (sy_tasks T) = map task_view (as_tasks S)) \<and>
    State_inv (as_state S) \<and>
    (\<forall>(k, t) \<in> set (as_tasks S). k \<in> set (as_signalled S) \<or>
      (\<exists>c \<in> set (conns (as_state S)). cn_shutdown_tx c = k \<and> cn_name c = ct_name t)) \<and>
    (\<forall>c \<in> set (conns (as_state S)). cn_shutdown_tx c \<notin> set (as_signalled S) \<and>
      (alive S (cn_shutdown_tx c) \<or> ConnectionClosed (cn_name c) \<in> set (as_queue S)))"
proof -
  obtain T where T: "sys_reach A T" "abstracts S T" using async_reach_abstract [OF assms] by blast
  from T(2) have eq: "sy_state T = as_state S" "sy_queue T = as_queue S" "sy_signalled T = as_signalled S"
    and ts: "list_all2 same_task (sy_tasks T) (as_tasks S)" by (simp_all add: abstracts_def)
  from ts have view: "map task_view (sy_tasks T) = map task_view (as_tasks S)"
    by (induction rule: list_all2_induct) (simp_all add: same_task_view)
  then have views: "task_view ` set (sy_tasks T) = task_view ` set (as_tasks S)" by (metis list.set_map)
  have inv: "sys_inv T" using T(1) by (rule sys_reach_inv)
  have orphans: "k \<in> set (as_signalled S) \<or> (\<exists>c \<in> set (conns (as_state S)). cn_shutdown_tx c = k \<and> cn_name c = ct_name t)"
    if "(k, t) \<in> set (as_tasks S)" for k t
  proof -
    from that views have "task_view (k, t) \<in> task_view ` set (sy_tasks T)" by blast
    then obtain t0 where "(k, t0) \<in> set (sy_tasks T)" "ct_name t0 = ct_name t" by (auto simp: task_view_def)
    with inv eq show ?thesis by (fastforce simp: sys_inv_def no_orphans_def)
  qed
  have "fst ` task_view ` set (sy_tasks T) = fst ` task_view ` set (as_tasks S)" using views by simp
  then have keys: "fst ` set (sy_tasks T) = fst ` set (as_tasks S)" by (simp add: image_image task_view_def)
  have zombies: "cn_shutdown_tx c \<notin> set (as_signalled S) \<and>
      (alive S (cn_shutdown_tx c) \<or> ConnectionClosed (cn_name c) \<in> set (as_queue S))" if "c \<in> set (conns (as_state S))" for c
  proof -
    have nz: "no_zombies T" using inv by (simp add: sys_inv_def)
    have "cn_shutdown_tx c \<notin> set (as_signalled S)" using nz that eq by (auto simp: no_zombies_def)
    moreover have "cn_shutdown_tx c \<in> fst ` set (sy_tasks T) \<or> ConnectionClosed (cn_name c) \<in> set (as_queue S)"
      using nz that eq by (force simp: no_zombies_def)
    ultimately show ?thesis by (simp add: alive_def keys)
  qed
  from inv eq have "State_inv (as_state S)" by (simp add: sys_inv_def)
  moreover have "\<forall>(k, t) \<in> set (as_tasks S). k \<in> set (as_signalled S) \<or>
      (\<exists>c \<in> set (conns (as_state S)). cn_shutdown_tx c = k \<and> cn_name c = ct_name t)"
    using orphans by auto
  ultimately show ?thesis using T(1) eq view zombies by blast
qed

theorem async_refines_system_witness:
  "\<exists>T :: unit system. sys_reach linux_termios T \<and> sy_state T = as_state asking \<and> sy_queue T = as_queue asking \<and>
     map task_view (sy_tasks T) = map task_view (as_tasks asking)"
  using async_refines_system [OF asking_run] by blast

end
