(* ===== verification/Daemon_Clients.thy ===== *)
theory Daemon_Clients
  imports Daemon_Async
begin

text \<open>
  The control sockets of the daemon beside its main loop (\<open>handle_stream\<close> in \<open>daemon/src/main.rs\<close>). Each accepted
  socket has a task that reads a command, waits for room in the event channel, waits for the answer on a oneshot channel
  of its own, and writes it. Here these waits are steps, interleaved with those of the other sockets, the main loop and
  the connection tasks.

  The sockets use the rest of the daemon through \<open>daemon_api\<close>. What they rely on is the locale \<open>command_server\<close>: commands are
  taken in the order in which they were submitted, one at a time, and each is answered once, with what handling it gave.
\<close>

section \<open>The tasks of the sockets\<close>

datatype stream_pc =
    StReading
  | StSending DaemonRequest sender \<comment> \<open>\<open>event_tx.send(..).await\<close>\<close>
  | StAnswering DaemonRequest sender \<comment> \<open>\<open>rx.await\<close>\<close>
  | StEnded
  | StPanicked

record stream =
  st_pc :: stream_pc
  st_turns :: "stream_turn list" \<comment> \<open>the turns of the loop that were completed\<close>
  st_written :: "u8 list list"

definition stream_init :: stream where
  "stream_init = \<lparr>st_pc = StReading, st_turns = [], st_written = []\<rparr>"

definition stream_read :: "(DaemonRequest, io_error) Result option \<Rightarrow> sender \<Rightarrow> stream \<Rightarrow> stream option" where
  "stream_read next tx c =
     (if st_pc c = StReading
      then (case next of
              Some (Ok msg) \<Rightarrow> Some (c\<lparr>st_pc := StSending msg tx\<rparr>)
            | _ \<Rightarrow> Some (c\<lparr>st_pc := StEnded\<rparr>))
      else None)"

definition answered_turn :: "DaemonRequest \<Rightarrow> sender \<Rightarrow> DaemonResponse \<Rightarrow> (unit, io_error) Result \<Rightarrow> stream_turn" where
  "answered_turn msg tx r io = \<lparr>su_next = Some (Ok msg), su_tx = tx, su_sent = Ok (), su_answer = Ok r, su_io = io\<rparr>"

definition stream_write :: "bytes_api \<Rightarrow> DaemonRequest \<Rightarrow> sender \<Rightarrow> DaemonResponse \<Rightarrow> (unit, io_error) Result \<Rightarrow> stream \<Rightarrow> stream" where
  "stream_write B msg tx r io c =
     (case writer_send B r io of
        Err e \<Rightarrow> c\<lparr>st_pc := StPanicked\<rparr>
      | Ok bytes \<Rightarrow>
          c\<lparr>st_pc := StReading, st_turns := st_turns c @ [answered_turn msg tx r io], st_written := st_written c @ [bytes]\<rparr>)"

section \<open>The daemon with its sockets\<close>

record ('s, 'a) daemon_api =
  da_submit :: "DaemonRequest \<Rightarrow> sender \<Rightarrow> 's \<Rightarrow> 's option" \<comment> \<open>None while the event channel is full\<close>
  da_answers :: "'s \<Rightarrow> (sender \<times> DaemonResponse) list" \<comment> \<open>the answers sent so far\<close>
  da_idle :: "'s \<Rightarrow> bool" \<comment> \<open>the main loop is in its \<open>select!\<close>\<close>
  da_act :: "'a \<Rightarrow> 's \<Rightarrow> 's option" \<comment> \<open>everything else\<close>

record 's server =
  sv_daemon :: 's
  sv_streams :: "stream list"
  sv_fresh :: sender

datatype 'a server_act =
    SvAccept
  | SvRead nat "(DaemonRequest, io_error) Result option"
  | SvSubmit nat
  | SvAnswer nat "(unit, io_error) Result"
  | SvDaemon 'a

definition server_init :: "'s \<Rightarrow> 's server" where
  "server_init s = \<lparr>sv_daemon = s, sv_streams = [], sv_fresh = 0\<rparr>"

definition set_stream :: "nat \<Rightarrow> stream \<Rightarrow> 's server \<Rightarrow> 's server" where
  "set_stream i c V = V\<lparr>sv_streams := (sv_streams V)[i := c]\<rparr>"

definition server_read :: "nat \<Rightarrow> (DaemonRequest, io_error) Result option \<Rightarrow> 's server \<Rightarrow> 's server option" where
  "server_read i next V =
     (if i < length (sv_streams V)
      then map_option (\<lambda>c. (set_stream i c V)\<lparr>sv_fresh := Suc (sv_fresh V)\<rparr>) (stream_read next (sv_fresh V) (sv_streams V ! i))
      else None)"

definition server_submit :: "('s, 'a) daemon_api \<Rightarrow> nat \<Rightarrow> 's server \<Rightarrow> 's server option" where
  "server_submit api i V =
     (if i < length (sv_streams V)
      then (case st_pc (sv_streams V ! i) of
              StSending msg tx \<Rightarrow>
                map_option (\<lambda>s. set_stream i ((sv_streams V ! i)\<lparr>st_pc := StAnswering msg tx\<rparr>) (V\<lparr>sv_daemon := s\<rparr>))
                  (da_submit api msg tx (sv_daemon V))
            | _ \<Rightarrow> None)
      else None)"

definition server_answer ::
  "bytes_api \<Rightarrow> ('s, 'a) daemon_api \<Rightarrow> nat \<Rightarrow> (unit, io_error) Result \<Rightarrow> 's server \<Rightarrow> 's server option" where
  "server_answer B api i io V =
     (if i < length (sv_streams V)
      then (case st_pc (sv_streams V ! i) of
              StAnswering msg tx \<Rightarrow>
                map_option (\<lambda>r. set_stream i (stream_write B msg tx r io (sv_streams V ! i)) V)
                  (map_of (da_answers api (sv_daemon V)) tx)
            | _ \<Rightarrow> None)
      else None)"

fun server_do :: "bytes_api \<Rightarrow> ('s, 'a) daemon_api \<Rightarrow> 'a server_act \<Rightarrow> 's server \<Rightarrow> 's server option" where
  "server_do B api SvAccept V =
     (if da_idle api (sv_daemon V) then Some (V\<lparr>sv_streams := sv_streams V @ [stream_init]\<rparr>) else None)"
| "server_do B api (SvRead i next) V = server_read i next V"
| "server_do B api (SvSubmit i) V = server_submit api i V"
| "server_do B api (SvAnswer i io) V = server_answer B api i io V"
| "server_do B api (SvDaemon a) V = map_option (\<lambda>s. V\<lparr>sv_daemon := s\<rparr>) (da_act api a (sv_daemon V))"

fun server_run :: "bytes_api \<Rightarrow> ('s, 'a) daemon_api \<Rightarrow> 'a server_act list \<Rightarrow> 's server \<Rightarrow> 's server option" where
  "server_run B api [] V = Some V"
| "server_run B api (a # as) V = (case server_do B api a V of None \<Rightarrow> None | Some V' \<Rightarrow> server_run B api as V')"

section \<open>What a socket's task relies on\<close>

text \<open>The oneshot channels of a task: those of its completed turns, and that of the turn under way.\<close>

definition stream_txs :: "stream \<Rightarrow> sender list" where
  "stream_txs c = map su_tx (st_turns c) @ (case st_pc c of StSending _ tx \<Rightarrow> [tx] | StAnswering _ tx \<Rightarrow> [tx] | _ \<Rightarrow> [])"

definition turn_ok :: "(DaemonRequest \<Rightarrow> DaemonResponse \<Rightarrow> bool) \<Rightarrow> (sender \<times> DaemonResponse) list \<Rightarrow> stream_turn \<Rightarrow> bool" where
  "turn_ok handled answers t \<longleftrightarrow>
     (\<exists>msg tx r io. t = answered_turn msg tx r io \<and> (tx, r) \<in> set answers \<and> handled msg r)"

definition stream_ok ::
  "bytes_api \<Rightarrow> (DaemonRequest \<Rightarrow> DaemonResponse \<Rightarrow> bool) \<Rightarrow> (DaemonRequest \<times> sender) list
     \<Rightarrow> (sender \<times> DaemonResponse) list \<Rightarrow> stream \<Rightarrow> bool" where
  "stream_ok B handled queue answers c \<longleftrightarrow>
     list_all (turn_ok handled answers) (st_turns c) \<and>
     list_all2 (\<lambda>t w. writer_send B (turn_response t) (su_io t) = Ok w) (st_turns c) (st_written c) \<and>
     distinct (stream_txs c) \<and>
     (case st_pc c of
        StSending msg tx \<Rightarrow> tx \<notin> snd ` set queue \<and> tx \<notin> fst ` set answers
      | StAnswering msg tx \<Rightarrow> (msg, tx) \<in> set queue \<or> (\<exists>r. (tx, r) \<in> set answers \<and> handled msg r)
      | _ \<Rightarrow> True)"

definition apart :: "stream list \<Rightarrow> bool" where
  "apart cs \<longleftrightarrow> (\<forall>i < length cs. \<forall>j < length cs. i \<noteq> j \<longrightarrow> set (stream_txs (cs ! i)) \<inter> set (stream_txs (cs ! j)) = {})"

definition server_ok ::
  "bytes_api \<Rightarrow> (DaemonRequest \<Rightarrow> DaemonResponse \<Rightarrow> bool) \<Rightarrow> (DaemonRequest \<times> sender) list
     \<Rightarrow> (sender \<times> DaemonResponse) list \<Rightarrow> 's server \<Rightarrow> bool" where
  "server_ok B handled queue answers V \<longleftrightarrow>
     distinct (map fst answers @ map snd queue) \<and>
     (\<forall>p \<in> set answers. fst p < sv_fresh V) \<and> (\<forall>p \<in> set queue. snd p < sv_fresh V) \<and>
     (\<forall>c \<in> set (sv_streams V). \<forall>tx \<in> set (stream_txs c). tx < sv_fresh V) \<and>
     (\<forall>c \<in> set (sv_streams V). stream_ok B handled queue answers c) \<and> apart (sv_streams V)"

lemma server_okD:
  assumes "server_ok B handled queue answers V"
  shows "distinct (map fst answers @ map snd queue)" and "(tx, r) \<in> set answers \<Longrightarrow> tx < sv_fresh V"
    and "(m, tx) \<in> set queue \<Longrightarrow> tx < sv_fresh V" and "c \<in> set (sv_streams V) \<Longrightarrow> tx \<in> set (stream_txs c) \<Longrightarrow> tx < sv_fresh V"
    and "c \<in> set (sv_streams V) \<Longrightarrow> stream_ok B handled queue answers c" and "apart (sv_streams V)"
  using assms unfolding server_ok_def by auto

text \<open>A stream is replaced by one whose other oneshot channels are fresh.\<close>

lemma server_ok_set:
  assumes ok: "server_ok B handled queue answers V" and i: "i < length (sv_streams V)"
    and sub: "set (stream_txs c) \<subseteq> set (stream_txs (sv_streams V ! i)) \<union> {sv_fresh V..<sv_fresh W}"
    and c: "stream_ok B handled queue' answers c"
    and queue: "\<And>m tx. (m, tx) \<in> set queue' \<Longrightarrow> (m, tx) \<in> set queue \<or> tx \<in> set (stream_txs (sv_streams V ! i))"
    and dist: "distinct (map fst answers @ map snd queue')"
    and others: "\<And>d. d \<in> set (sv_streams V) \<Longrightarrow> set (stream_txs d) \<inter> set (stream_txs (sv_streams V ! i)) = {} \<Longrightarrow>
      stream_ok B handled queue answers d \<Longrightarrow> stream_ok B handled queue' answers d"
    and W: "sv_streams W = (sv_streams V)[i := c]" "sv_fresh V \<le> sv_fresh W"
  shows "server_ok B handled queue' answers W"
proof -
  note D = server_okD [OF ok]
  have mem: "sv_streams V ! i \<in> set (sv_streams V)" using i by simp
  have bound: "tx < sv_fresh W" if "tx \<in> set (stream_txs c)" for tx
    using that sub D(4) [OF mem] W(2) by fastforce
  have d: "d = c \<or> (\<exists>j < length (sv_streams V). j \<noteq> i \<and> d = sv_streams V ! j)" if "d \<in> set ((sv_streams V)[i := c])" for d
    using that by (metis in_set_conv_nth length_list_update nth_list_update_eq nth_list_update_neq)
  have apart: "apart ((sv_streams V)[i := c])"
    unfolding apart_def
  proof (intro allI impI)
    fix j k
    assume jk: "j < length ((sv_streams V)[i := c])" "k < length ((sv_streams V)[i := c])" "j \<noteq> k"
    have new: "set (stream_txs c) \<inter> set (stream_txs (sv_streams V ! l)) = {}" if "l < length (sv_streams V)" "l \<noteq> i" for l
      using that sub D(4) [of "sv_streams V ! l"] D(6) i by (fastforce simp: apart_def)
    from jk new [of j] new [of k] D(6) i show "set (stream_txs ((sv_streams V)[i := c] ! j)) \<inter> set (stream_txs ((sv_streams V)[i := c] ! k)) = {}"
      by (cases "j = i"; cases "k = i") (auto simp: apart_def)
  qed
  have "stream_ok B handled queue' answers d" if "d \<in> set ((sv_streams V)[i := c])" for d
  proof -
    from d [OF that] show ?thesis
    proof
      assume "\<exists>j < length (sv_streams V). j \<noteq> i \<and> d = sv_streams V ! j"
      then obtain j where j: "j < length (sv_streams V)" "j \<noteq> i" "d = sv_streams V ! j" by blast
      with D(6) i have "set (stream_txs d) \<inter> set (stream_txs (sv_streams V ! i)) = {}" by (simp add: apart_def)
      then show ?thesis using others [of d] D(5) [of d] j by simp
    qed (use c in simp)
  qed
  moreover have "tx < sv_fresh W" if "d \<in> set ((sv_streams V)[i := c])" "tx \<in> set (stream_txs d)" for d tx
    using d [OF that(1)] that(2) bound D(4) W(2) by (metis order_less_le_trans nth_mem)
  ultimately show ?thesis
    using dist apart D(2,3) queue D(4) [OF mem] W by (fastforce simp: server_ok_def)
qed

lemma read_stream_ok:
  assumes "stream_ok B handled queue answers c" and "stream_read next tx c = Some c'"
    and "tx \<notin> snd ` set queue" "tx \<notin> fst ` set answers" "tx \<notin> set (stream_txs c)"
  shows "stream_ok B handled queue answers c'"
proof -
  from assms(2) consider msg where "c' = c\<lparr>st_pc := StSending msg tx\<rparr>" "st_pc c = StReading"
    | "c' = c\<lparr>st_pc := StEnded\<rparr>" "st_pc c = StReading"
    by (auto simp: stream_read_def split: if_splits option.splits Result.splits)
  then show ?thesis using assms(1,3-5) by cases (simp_all add: stream_ok_def stream_txs_def)
qed

section \<open>The contract of the rest of the daemon\<close>

locale command_server =
  fixes api :: "('s, 'a) daemon_api" and queue :: "'s \<Rightarrow> (DaemonRequest \<times> sender) list"
    and handled :: "DaemonRequest \<Rightarrow> DaemonResponse \<Rightarrow> bool"
  assumes submitted: "da_submit api msg tx s = Some s' \<Longrightarrow> queue s' = queue s @ [(msg, tx)] \<and> da_answers api s' = da_answers api s"
    and served: "da_act api a s = Some s' \<Longrightarrow> queue s' = queue s \<and> da_answers api s' = da_answers api s \<or>
      (\<exists>msg tx r. queue s = (msg, tx) # queue s' \<and> da_answers api s' = da_answers api s @ [(tx, r)] \<and> handled msg r)"
begin

definition ok :: "bytes_api \<Rightarrow> 's server \<Rightarrow> bool" where
  "ok B V \<longleftrightarrow> server_ok B handled (queue (sv_daemon V)) (da_answers api (sv_daemon V)) V"

lemma read_ok:
  assumes "ok B V" and "server_read i next V = Some W"
  shows "ok B W"
proof -
  let ?s = "sv_daemon V"
  from assms(2) obtain c where i: "i < length (sv_streams V)" and c: "stream_read next (sv_fresh V) (sv_streams V ! i) = Some c"
    and W: "W = (set_stream i c V)\<lparr>sv_fresh := Suc (sv_fresh V)\<rparr>"
    by (auto simp: server_read_def split: if_splits)
  note ok = assms(1) [unfolded ok_def]
  have mem: "sv_streams V ! i \<in> set (sv_streams V)" using i by simp
  have old: "st_pc (sv_streams V ! i) = StReading" using c by (simp add: stream_read_def split: if_splits)
  have new: "sv_fresh V \<notin> snd ` set (queue ?s)" "sv_fresh V \<notin> fst ` set (da_answers api ?s)"
    "sv_fresh V \<notin> set (stream_txs (sv_streams V ! i))"
    using server_okD(2,3) [OF ok] server_okD(4) [OF ok mem] by force+
  have "set (stream_txs c) \<subseteq> set (stream_txs (sv_streams V ! i)) \<union> {sv_fresh V}"
    using c old by (auto simp: stream_read_def stream_txs_def split: option.splits Result.splits)
  moreover have "stream_ok B handled (queue ?s) (da_answers api ?s) c"
    by (rule read_stream_ok [OF server_okD(5) [OF ok mem] c new])
  ultimately have "server_ok B handled (queue ?s) (da_answers api ?s) W"
    using server_okD(1) [OF ok] by (intro server_ok_set [OF ok i, of c]) (auto simp: W set_stream_def)
  then show ?thesis by (simp add: ok_def W set_stream_def)
qed

lemma submit_ok:
  assumes "ok B V" and "server_submit api i V = Some W"
  shows "ok B W"
proof -
  let ?s = "sv_daemon V"
  from assms(2) obtain msg tx s where i: "i < length (sv_streams V)" and pc: "st_pc (sv_streams V ! i) = StSending msg tx"
    and s: "da_submit api msg tx ?s = Some s"
    and W: "W = set_stream i ((sv_streams V ! i)\<lparr>st_pc := StAnswering msg tx\<rparr>) (V\<lparr>sv_daemon := s\<rparr>)"
    by (auto simp: server_submit_def split: if_splits stream_pc.splits)
  let ?c = "(sv_streams V ! i)\<lparr>st_pc := StAnswering msg tx\<rparr>"
  note ok = assms(1) [unfolded ok_def]
  have mem: "sv_streams V ! i \<in> set (sv_streams V)" using i by simp
  note q = submitted [OF s]
  have own: "tx \<in> set (stream_txs (sv_streams V ! i))" "stream_txs ?c = stream_txs (sv_streams V ! i)"
    using pc by (simp_all add: stream_txs_def)
  have old: "stream_ok B handled (queue ?s) (da_answers api ?s) (sv_streams V ! i)" by (rule server_okD(5) [OF ok mem])
  have "distinct (map fst (da_answers api ?s) @ map snd (queue s))"
    using server_okD(1) [OF ok] old pc q by (auto simp: stream_ok_def)
  moreover have "stream_ok B handled (queue s) (da_answers api ?s) ?c"
    using old pc q own(2) by (simp add: stream_ok_def)
  moreover have "stream_ok B handled (queue s) (da_answers api ?s) d"
    if "stream_ok B handled (queue ?s) (da_answers api ?s) d" "set (stream_txs d) \<inter> set (stream_txs (sv_streams V ! i)) = {}" for d
    using that own(1) q by (auto simp: stream_ok_def stream_txs_def split: stream_pc.splits)
  ultimately have "server_ok B handled (queue s) (da_answers api ?s) W"
    by (intro server_ok_set [OF ok i, of ?c]) (use q own in \<open>auto simp: W set_stream_def\<close>)
  then show ?thesis using q by (simp add: ok_def W set_stream_def)
qed

lemma answer_ok:
  assumes "ok B V" and "server_answer B api i io V = Some W"
  shows "ok B W"
proof -
  let ?s = "sv_daemon V"
  from assms(2) obtain msg tx r where i: "i < length (sv_streams V)" and pc: "st_pc (sv_streams V ! i) = StAnswering msg tx"
    and r: "(tx, r) \<in> set (da_answers api ?s)" and W: "W = set_stream i (stream_write B msg tx r io (sv_streams V ! i)) V"
    by (auto simp: server_answer_def split: if_splits stream_pc.splits dest!: map_of_SomeD)
  let ?c = "stream_write B msg tx r io (sv_streams V ! i)"
  note ok = assms(1) [unfolded ok_def]
  note dist = server_okD(1) [OF ok]
  have mem: "sv_streams V ! i \<in> set (sv_streams V)" using i by simp
  have old: "stream_ok B handled (queue ?s) (da_answers api ?s) (sv_streams V ! i)" by (rule server_okD(5) [OF ok mem])
  have "(msg, tx) \<notin> set (queue ?s)" using dist r by force
  with old pc obtain r' where r': "(tx, r') \<in> set (da_answers api ?s)" "handled msg r'" by (auto simp: stream_ok_def)
  moreover have "distinct (map fst (da_answers api ?s))" using dist by simp
  ultimately have h: "handled msg r" using r eq_key_imp_eq_value by fast
  have "set (stream_txs ?c) \<subseteq> set (stream_txs (sv_streams V ! i))"
    using pc by (auto simp: stream_write_def stream_txs_def answered_turn_def split: Result.splits)
  moreover have "stream_ok B handled (queue ?s) (da_answers api ?s) ?c"
    using old pc r h
    by (auto simp: stream_write_def stream_ok_def stream_txs_def turn_ok_def turn_response_def answered_turn_def
        list_all2_append list_all2_lengthD split: Result.splits)
  ultimately have "server_ok B handled (queue ?s) (da_answers api ?s) W"
    using dist by (intro server_ok_set [OF ok i, of ?c]) (auto simp: W set_stream_def)
  then show ?thesis by (simp add: ok_def W set_stream_def)
qed

lemma accept_ok:
  assumes "ok B V"
  shows "ok B (V\<lparr>sv_streams := sv_streams V @ [stream_init]\<rparr>)"
proof -
  have "stream_ok B handled (queue (sv_daemon V)) (da_answers api (sv_daemon V)) stream_init" "stream_txs stream_init = []"
    by (simp_all add: stream_ok_def stream_txs_def stream_init_def)
  moreover have "apart (sv_streams V @ [stream_init])"
    using assms calculation(2) by (auto simp: ok_def server_ok_def apart_def nth_append less_Suc_eq)
  ultimately show ?thesis using assms by (simp add: ok_def server_ok_def)
qed

lemma daemon_ok:
  assumes "ok B V" and "da_act api a (sv_daemon V) = Some s"
  shows "ok B (V\<lparr>sv_daemon := s\<rparr>)"
  using served [OF assms(2)]
proof
  assume "\<exists>msg tx r. queue (sv_daemon V) = (msg, tx) # queue s \<and> da_answers api s = da_answers api (sv_daemon V) @ [(tx, r)] \<and> handled msg r"
  then obtain msg tx r where q: "queue (sv_daemon V) = (msg, tx) # queue s"
    "da_answers api s = da_answers api (sv_daemon V) @ [(tx, r)]" "handled msg r" by blast
  have "stream_ok B handled (queue s) (da_answers api s) c"
    if "stream_ok B handled (queue (sv_daemon V)) (da_answers api (sv_daemon V)) c" for c
  proof -
    have "turn_ok handled (da_answers api s) t" if "turn_ok handled (da_answers api (sv_daemon V)) t" for t
      using that q(2) by (auto simp: turn_ok_def)
    then show ?thesis using that q by (auto simp: stream_ok_def list_all_iff split: stream_pc.splits)
  qed
  with assms(1) q show ?thesis by (auto simp: ok_def server_ok_def)
qed (use assms(1) in \<open>simp add: ok_def server_ok_def\<close>)

lemma do_ok:
  assumes "ok B V" and "server_do B api a V = Some W"
  shows "ok B W"
proof (cases a)
  case SvAccept
  with assms show ?thesis using accept_ok by (simp split: if_splits) blast
next
  case (SvDaemon b)
  with assms show ?thesis using daemon_ok by auto
qed (use assms(2) read_ok [OF assms(1)] submit_ok [OF assms(1)] answer_ok [OF assms(1)] in \<open>auto\<close>)

lemma run_ok: "server_run B api as V = Some W \<Longrightarrow> ok B V \<Longrightarrow> ok B W"
  by (induction "as" arbitrary: V) (auto split: option.splits dest: do_ok)

lemma init_ok: "queue s = [] \<Longrightarrow> da_answers api s = [] \<Longrightarrow> ok B (server_init s)"
  by (simp add: ok_def server_ok_def server_init_def apart_def)

end

section \<open>The daemon keeps the contract\<close>

fun waiting_event :: "main_wait \<Rightarrow> DaemonEvent list" where
  "waiting_event Receiving = []"
| "waiting_event (Listing ev _) = [ev]"
| "waiting_event (AwaitStatus ev _ _ _) = [ev]"
| "waiting_event (AwaitReset ev _ _) = [ev]"

fun command_of :: "DaemonEvent \<Rightarrow> (DaemonRequest \<times> sender) list" where
  "command_of (CliCommand msg tx) = [(msg, tx)]"
| "command_of (ConnectionClosed _) = []"

definition open_commands :: "'f asystem \<Rightarrow> (DaemonRequest \<times> sender) list" where
  "open_commands S = concat (map command_of (waiting_event (as_main S) @ as_queue S))"

fun is_command :: "'f async_act \<Rightarrow> bool" where
  "is_command (AsCommand _ _) = True"
| "is_command _ = False"

definition async_api :: "termios_api \<Rightarrow> ('f asystem, 'f async_act) daemon_api" where
  "async_api A = \<lparr>da_submit = (\<lambda>msg tx. async_do A (AsCommand msg tx)), da_answers = as_responses,
     da_idle = (\<lambda>S. as_main S = Receiving), da_act = (\<lambda>a S. if is_command a then None else async_do A a S)\<rparr>"

text \<open>The end of an event answers it, if it is a command.\<close>

lemma finish_answers:
  fixes S :: "'f asystem"
  assumes "finish_event A S ev env = Some S'"
  shows "as_queue S' = as_queue S \<and> as_main S' = Receiving \<and>
    (command_of ev = [] \<and> as_responses S' = as_responses S \<or>
     (\<exists>msg tx r s env s' (es :: 'f daemon_effect list). command_of ev = [(msg, tx)] \<and>
        as_responses S' = as_responses S @ [(tx, r)] \<and> handle_daemon_request A s msg env = Done (r, s', es)))"
proof -
  from assms obtain s' and es :: "'f daemon_effect list" where m: "main_step A (as_state S) (Event ev env) = Done (s', es)"
    and S': "as_queue S' = as_queue S" "as_main S' = Receiving" "as_responses S' = as_responses S @ responses es"
    by (auto simp: finish_event_def split: if_splits outcome.splits)
  note fsts = main_step_responses [OF m]
  show ?thesis
  proof (cases ev)
    case (CliCommand msg tx)
    with m obtain r es0 where h: "handle_daemon_request A (as_state S) msg env = Done (r, s', es0)" and es: "es = es0 @ [Respond tx r]"
      by (auto simp: main_step_def split: outcome.splits)
    have "responses es = responses es0 @ [(tx, r)]" by (simp add: es responses_def)
    with fsts CliCommand have "responses es = [(tx, r)]" by simp
    with h S' CliCommand show ?thesis by auto
  next
    case (ConnectionClosed n)
    with fsts S' show ?thesis by simp
  qed
qed

lemma async_serves:
  fixes S :: "'f asystem"
  assumes "async_do A a S = Some S'" and "\<not> is_command a"
  shows "open_commands S' = open_commands S \<and> as_responses S' = as_responses S \<or>
    (\<exists>msg tx r s env s' (es :: 'f daemon_effect list). open_commands S = (msg, tx) # open_commands S' \<and>
       as_responses S' = as_responses S @ [(tx, r)] \<and> handle_daemon_request A s msg env = Done (r, s', es))"
proof -
  have finish: ?thesis
    if "finish_event A S1 ev env = Some S'" "open_commands S = command_of ev @ concat (map command_of (as_queue S1))"
      "as_responses S1 = as_responses S" for S1 ev env
    using finish_answers [OF that(1)] that(2,3) by (auto simp: open_commands_def)
  show ?thesis
  proof (cases a)
    case (AsReceive env)
    with assms have rcv: "main_receive A S env = Some S'" by simp
    then obtain ev evs where m: "as_main S = Receiving" "as_queue S = ev # evs"
      by (auto simp: main_receive_def split: main_wait.splits list.splits)
    from rcv m show ?thesis
    proof (cases rule: main_receive_cases)
      case (Finish env')
      then show ?thesis by (rule finish) (simp_all add: m open_commands_def)
    next
      case (Ask k req n tx)
      then show ?thesis using m by (auto simp: open_commands_def ask_def split: if_splits)
    qed (auto simp: open_commands_def m)
  next
    case (AsList env)
    with assms obtain ev sofar where m: "as_main S = Listing ev sofar" by (auto simp: main_list_def split: main_wait.splits)
    show ?thesis
    proof (cases "drop (length sofar) (conns (as_state S))")
      case Nil
      with AsList assms m have "finish_event A S ev (env\<lparr>he_list := sofar\<rparr>) = Some S'" by (simp add: main_list_def)
      then show ?thesis by (rule finish) (simp_all add: m open_commands_def)
    next
      case (Cons c cs)
      with AsList assms m show ?thesis by (auto simp: main_list_def ask_def open_commands_def split: if_splits)
    qed
  next
    case AsStatus
    with assms show ?thesis by (auto simp: main_status_def open_commands_def split: main_wait.splits option.splits if_splits)
  next
    case (AsReset env)
    with assms obtain ev k tx env' where m: "as_main S = AwaitReset ev k tx" and f: "finish_event A S ev env' = Some S'"
      by (auto simp: main_reset_def split: main_wait.splits option.splits if_splits)
    from f show ?thesis by (rule finish) (simp_all add: m open_commands_def)
  next
    case (AsClose j)
    with assms show ?thesis by (auto simp: close_act_def open_commands_def notices_shutdown split: if_splits prod.splits)
  qed (use assms in \<open>auto simp: task_act_def answer_act_def fail_act_def open_commands_def
      split: if_splits prod.splits list.splits outcome.splits\<close>)
qed

interpretation commands: command_server "async_api A :: ('f asystem, 'f async_act) daemon_api" open_commands
  "\<lambda>msg r. \<exists>s env s' (es :: 'f daemon_effect list). handle_daemon_request A s msg env = Done (r, s', es)" for A
proof
  show "open_commands S' = open_commands S @ [(msg, tx)] \<and> da_answers (async_api A) S' = da_answers (async_api A) S"
    if "da_submit (async_api A) msg tx S = Some S'" for msg tx and S S' :: "'f asystem"
    using that by (auto simp: async_api_def open_commands_def split: if_splits)
  show "open_commands S' = open_commands S \<and> da_answers (async_api A) S' = da_answers (async_api A) S \<or>
      (\<exists>msg tx r. open_commands S = (msg, tx) # open_commands S' \<and>
         da_answers (async_api A) S' = da_answers (async_api A) S @ [(tx, r)] \<and>
         (\<exists>s env s' (es :: 'f daemon_effect list). handle_daemon_request A s msg env = Done (r, s', es)))"
    if "da_act (async_api A) a S = Some S'" for a and S S' :: "'f asystem"
    using async_serves [of A a S S'] that by (simp add: async_api_def split: if_splits)
qed

section \<open>The loop of a socket\<close>

text \<open>What the loop of a socket did in its completed turns.\<close>

definition turn_effects :: "stream_turn \<Rightarrow> u8 list \<Rightarrow> stream_effect list" where
  "turn_effects t w = (case su_next t of Some (Ok msg) \<Rightarrow> [Submit (CliCommand msg (su_tx t)), WriteBytes w] | _ \<Rightarrow> [])"

definition stream_effects :: "stream \<Rightarrow> stream_effect list" where
  "stream_effects c = concat (map2 turn_effects (st_turns c) (st_written c))"

lemma turns_handled:
  assumes "list_all2 (\<lambda>t w. writer_send B (turn_response t) (su_io t) = Ok w) turns ws" and "list_all (turn_ok H ans) turns"
  shows "handle_stream B (turns @ more_turns) =
    (case handle_stream B more_turns of Done es \<Rightarrow> Done (concat (map2 turn_effects turns ws) @ es) | r \<Rightarrow> r)"
  using assms
proof (induction rule: list_all2_induct)
  case (Cons t ts w ws)
  then obtain msg tx r io where t: "t = answered_turn msg tx r io" by (auto simp: turn_ok_def)
  with Cons have "writer_send B r io = Ok w" "turn_effects t w = [Submit (CliCommand msg tx), WriteBytes w]"
    by (simp_all add: answered_turn_def turn_response_def turn_effects_def)
  with Cons t show ?case by (simp add: answered_turn_def split: outcome.split)
qed (simp split: outcome.split)

section \<open>Properties\<close>

text \<open>C7. Every client is answered its own commands. However the sockets, the main loop and the connection tasks
  interleave, in every reachable state each completed turn of a socket's loop read a command, and what it wrote is the
  answer the main loop sent on the oneshot channel of that turn, which is what handling that very command gave. No two turns, of the same or of
  different sockets, share a channel, and each channel is answered at most once. What a socket has submitted and written are, in order,
  exactly what \<open>handle_stream\<close> does for these turns.\<close>

theorem clients_get_own_answers:
  fixes V :: "'f asystem server"
  assumes "server_run B (async_api A) acts (server_init async_init) = Some V" and "c \<in> set (sv_streams V)"
  shows "(\<forall>t \<in> set (st_turns c). \<exists>msg tx r io s env s' (es :: 'f daemon_effect list). t = answered_turn msg tx r io \<and>
      (tx, r) \<in> set (as_responses (sv_daemon V)) \<and> handle_daemon_request A s msg env = Done (r, s', es)) \<and>
    handle_stream B (st_turns c @ more_turns)
      = (case handle_stream B more_turns of Done es \<Rightarrow> Done (stream_effects c @ es) | r \<Rightarrow> r) \<and>
    distinct (map su_tx (st_turns c)) \<and> distinct (map fst (as_responses (sv_daemon V))) \<and> apart (sv_streams V)"
proof -
  have "open_commands async_init = ([] :: (DaemonRequest \<times> sender) list)" "da_answers (async_api A) async_init = []"
    by (simp_all add: open_commands_def async_init_def async_api_def)
  from commands.run_ok [OF assms(1) commands.init_ok [OF this]]
  have ok: "commands.ok A B V" .
  note D = server_okD [OF ok [unfolded commands.ok_def]]
  note c = D(5) [OF assms(2)]
  from c have turns: "\<forall>t \<in> set (st_turns c). \<exists>msg tx r io s env s' (es :: 'f daemon_effect list). t = answered_turn msg tx r io \<and>
      (tx, r) \<in> set (as_responses (sv_daemon V)) \<and> handle_daemon_request A s msg env = Done (r, s', es)"
    by (fastforce simp: stream_ok_def turn_ok_def list_all_iff async_api_def)
  have "distinct (map su_tx (st_turns c))" using c by (simp add: stream_ok_def stream_txs_def)
  moreover have "distinct (map fst (as_responses (sv_daemon V)))" using D(1) by (simp add: async_api_def)
  moreover have "handle_stream B (st_turns c @ more_turns)
      = (case handle_stream B more_turns of Done es \<Rightarrow> Done (stream_effects c @ es) | r \<Rightarrow> r)"
    unfolding stream_effects_def using c by (intro turns_handled) (auto simp: stream_ok_def)
  ultimately show ?thesis using turns D(6) by blast
qed

definition demo_server_acts :: "unit async_act server_act list" where
  "demo_server_acts =
     [SvAccept, SvAccept, SvRead 1 (Some (Ok ReqList)), SvRead 0 (Some (Ok (ReqRemove (lit ''x'')))), SvSubmit 0, SvSubmit 1,
      SvDaemon (AsReceive (async_env 0)), SvDaemon (AsReceive (async_env 1)), SvDaemon (AsList (async_env 1)),
      SvAnswer 1 (Ok ()), SvAnswer 0 (Ok ())]"

theorem clients_get_own_answers_witness:
  "\<exists>V c. server_run bytes_ref (async_api linux_termios) demo_server_acts (server_init async_init) = Some V \<and>
     c \<in> set (sv_streams V) \<and> map su_answer (st_turns c) = [Ok (RespList [])] \<and>
     handle_stream bytes_ref (st_turns c @ []) = Suspended \<and> distinct (map fst (as_responses (sv_daemon V)))"
proof -
  have "case server_run bytes_ref (async_api linux_termios) demo_server_acts (server_init async_init) of None \<Rightarrow> False
     | Some V \<Rightarrow> list_ex (\<lambda>c. map su_answer (st_turns c) = [Ok (RespList [])]) (sv_streams V)"
    by code_simp
  then obtain V c where V: "server_run bytes_ref (async_api linux_termios) demo_server_acts (server_init async_init) = Some V"
    "c \<in> set (sv_streams V)" "map su_answer (st_turns c) = [Ok (RespList [])]"
    by (auto simp: list_ex_iff split: option.splits)
  from clients_get_own_answers [OF V(1,2), of "[]"] V show ?thesis by auto
qed

end
