(* ===== verification/Cli.thy ===== *)
theory Cli
  imports Ctl_Codec
begin

text \<open>
  The command line client (\<open>cli/src/main.rs\<close>): from the parsed command line to the request, one exchange
  with the daemon, and what is printed. Parsing the command line (\<open>clap\<close>) is not modelled: the program
  starts with a \<open>Command\<close>. The standard library's IPv4 addresses are: \<open>Ipv4Addr\<close> is its four
  octets, with the parser and the printer the client uses. How an \<open>io::Error\<close> is shown is a parameter.
\<close>

section \<open>IPv4 addresses\<close>

type_synonym Ipv4Addr = "u8 \<times> u8 \<times> u8 \<times> u8"

definition Ipv4Addr_from_bits :: "u32 \<Rightarrow> Ipv4Addr" where
  "Ipv4Addr_from_bits x = (case be32 x of [a, b, c, d] \<Rightarrow> (a, b, c, d) | _ \<Rightarrow> (0, 0, 0, 0))"

definition Ipv4Addr_to_bits :: "Ipv4Addr \<Rightarrow> u32" where
  "Ipv4Addr_to_bits ip = (case ip of (a, b, c, d) \<Rightarrow> of_be32 a b c d)"

definition show_octet :: "u8 \<Rightarrow> rstring" where
  "show_octet b = lit (show_nat (unat b))"

definition dot :: u8 where
  "dot = 46"

definition Ipv4Addr_show :: "Ipv4Addr \<Rightarrow> rstring" where
  "Ipv4Addr_show ip = (case ip of (a, b, c, d) \<Rightarrow>
     show_octet a @ [dot] @ show_octet b @ [dot] @ show_octet c @ [dot] @ show_octet d)"

text \<open>
  The parser: a number is one to three decimal digits without a leading zero (unless it is \<open>0\<close>) and at
  most 255; an address is four of them with dots between, and nothing else.
\<close>

definition is_digit :: "u8 \<Rightarrow> bool" where
  "is_digit b \<longleftrightarrow> 48 \<le> b \<and> b \<le> 57"

definition digits_value :: "rstring \<Rightarrow> nat" where
  "digits_value ds = foldl (\<lambda>n d. 10 * n + (unat d - 48)) 0 ds"

definition read_number :: "rstring \<Rightarrow> (u8 \<times> rstring) option" where
  "read_number s =
     (let ds = takeWhile is_digit s
      in if ds = [] \<or> 3 < length ds \<or> 255 < digits_value ds \<or> (hd ds = 48 \<and> 1 < length ds) then None
         else Some (of_nat (digits_value ds), dropWhile is_digit s))"

definition read_given_char :: "u8 \<Rightarrow> rstring \<Rightarrow> rstring option" where
  "read_given_char c s = (case s of [] \<Rightarrow> None | b # s' \<Rightarrow> if b = c then Some s' else None)"

definition Ipv4Addr_parse :: "rstring \<Rightarrow> Ipv4Addr option" where
  "Ipv4Addr_parse s0 =
     Option.bind (read_number s0) (\<lambda>(a, s1).
     Option.bind (read_given_char dot s1) (\<lambda>s2.
     Option.bind (read_number s2) (\<lambda>(b, s3).
     Option.bind (read_given_char dot s3) (\<lambda>s4.
     Option.bind (read_number s4) (\<lambda>(c, s5).
     Option.bind (read_given_char dot s5) (\<lambda>s6.
     Option.bind (read_number s6) (\<lambda>(d, s7).
       if s7 = [] then Some (a, b, c, d) else None)))))))"

section \<open>The client\<close>

datatype Command =
    CmdAdd rstring rstring u16
  | CmdRemove rstring
  | CmdList
  | CmdReset rstring

text \<open>What the client shows: a line on the output, a line on the error output, an exit status.\<close>

datatype cli_out = Println rstring | Eprintln rstring | Exit nat

definition cli_message :: "Command \<Rightarrow> (DaemonRequest, cli_out list) Result" where
  "cli_message cmd =
     (case cmd of
        CmdAdd name addr port \<Rightarrow>
          (case Ipv4Addr_parse addr of
             None \<Rightarrow> Err [Eprintln (lit ''Invalid IP address: '' @ addr), Exit 1]
           | Some ip \<Rightarrow> Ok (ReqAdd name (Ipv4Addr_to_bits ip) port))
      | CmdRemove name \<Rightarrow> Ok (ReqRemove name)
      | CmdList \<Rightarrow> Ok ReqList
      | CmdReset name \<Rightarrow> Ok (ReqReset name))"

definition info_line :: "ConnectionInfo \<Rightarrow> rstring" where
  "info_line info =
     (let ip = Ipv4Addr_from_bits (ci_addr info);
          status = (if ci_connected info then lit ''[CONNECTED]'' else lit ''[OFFLINE]'')
      in lit ''- '' @ ci_name info @ lit '': '' @ Ipv4Addr_show ip @ lit '':'' @ lit (show_nat (unat (ci_port info)))
         @ lit '' (PTY: '' @ ci_pts_path info @ lit '') '' @ status)"

definition handle_response :: "DaemonResponse \<Rightarrow> cli_out list" where
  "handle_response resp =
     (case resp of
        AddOk pts_path \<Rightarrow> [Println (lit ''Successfully added connection. PTY device: '' @ pts_path)]
      | RespError msg \<Rightarrow> [Eprintln (lit ''Error from daemon: '' @ msg)]
      | RemoveOk \<Rightarrow> [Println (lit ''Successfully removed connection'')]
      | RespList l \<Rightarrow>
          if l = [] then [Println (lit ''No active connections'')]
          else Println (lit ''Active connections:'') # map (\<lambda>info. Println (info_line info)) l
      | ResetOk \<Rightarrow> [Println (lit ''Successfully reset device'')])"

text \<open>
  \<open>FramedWrite::send\<close> puts the request through the encoder and writes the bytes; \<open>io\<close> is the outcome
  of the writing. The client's run: outcomes of the connect and of the writing, and what \<open>reader.next()\<close>
  yields; it gives the bytes written and what is shown.
\<close>

definition request_send ::
  "bytes_api \<Rightarrow> DaemonRequest \<Rightarrow> (unit, io_error) Result \<Rightarrow> (u8 list, io_error) Result" where
  "request_send B msg io =
     (case DaemonRequestEncoder_encode B msg [] of
        (Err e, _) \<Rightarrow> Err e
      | (Ok _, bytes) \<Rightarrow> (case io of Err e \<Rightarrow> Err e | Ok _ \<Rightarrow> Ok bytes))"

definition cli_main ::
  "bytes_api \<Rightarrow> (io_error \<Rightarrow> rstring) \<Rightarrow> Command \<Rightarrow> (unit, io_error) Result \<Rightarrow> (unit, io_error) Result
     \<Rightarrow> (DaemonResponse, io_error) Result option \<Rightarrow> u8 list \<times> cli_out list" where
  "cli_main B show_err command connect io next =
     (case connect of
        Err e \<Rightarrow> ([], [Eprintln (lit ''Failed to connect to socket: '' @ show_err e)])
      | Ok _ \<Rightarrow>
          (case cli_message command of
             Err outs \<Rightarrow> ([], outs)
           | Ok message \<Rightarrow>
               (case request_send B message io of
                  Err e \<Rightarrow> ([], [Eprintln (lit ''Failed to send message to socket: '' @ show_err e)])
                | Ok bytes \<Rightarrow>
                    (bytes,
                     case next of
                       Some (Ok resp) \<Rightarrow> handle_response resp
                     | Some (Err e) \<Rightarrow> [Eprintln (lit ''Failed to decode daemon response: '' @ show_err e)]
                     | None \<Rightarrow> [Eprintln (lit ''Daemon closed connection unexpectedly'')]))))"

section \<open>Addresses: printing and parsing are inverse\<close>

declare show_nat.simps [simp del]

text \<open>The decimal digits of a number, as bytes.\<close>

definition dec :: "nat \<Rightarrow> rstring" where
  "dec n = lit (show_nat n)"

lemma of_char_digit: "n < 10 \<Longrightarrow> (of_char (char_of (48 + n)) :: u8) = of_nat (48 + n)"
proof -
  assume "n < 10"
  then have "of_char (char_of (48 + n)) = 48 + n" by simp
  then show ?thesis by (metis of_nat_of_char)
qed

lemma dec_digit: "n < 10 \<Longrightarrow> dec n = [of_nat (48 + n)]"
  by (simp add: dec_def show_nat.simps [of n] lit_def of_char_digit del: of_nat_add)

lemma dec_step: "10 \<le> n \<Longrightarrow> dec n = dec (n div 10) @ [of_nat (48 + n mod 10)]"
  by (simp add: dec_def show_nat.simps [of n] lit_def of_char_digit del: of_nat_add)

lemma digit_byte: "n < 10 \<Longrightarrow> is_digit (of_nat (48 + n))" "n < 10 \<Longrightarrow> unat (of_nat (48 + n) :: u8) = 48 + n"
  by (simp_all add: is_digit_def word_le_nat_alt unat_of_nat del: of_nat_add)

lemma is_digit_unat: "is_digit d \<Longrightarrow> \<exists>k < 10. d = of_nat (48 + k) \<and> unat d = 48 + k"
proof -
  assume "is_digit d"
  then have "48 \<le> unat d" "unat d \<le> 57" by (simp_all add: is_digit_def word_le_nat_alt)
  then have "unat d - 48 < 10 \<and> d = of_nat (48 + (unat d - 48)) \<and> unat d = 48 + (unat d - 48)" by simp
  then show ?thesis by blast
qed

lemma digits_value_snoc: "digits_value (ds @ [d]) = 10 * digits_value ds + (unat d - 48)"
  by (simp add: digits_value_def)

lemma dec_digits: "list_all is_digit (dec n) \<and> dec n \<noteq> [] \<and> digits_value (dec n) = n \<and> (hd (dec n) = 48 \<longrightarrow> n = 0)"
proof (induction n rule: less_induct)
  case (less n)
  show ?case
  proof (cases "n < 10")
    case True
    have "n = 0" if "(of_nat (48 + n) :: u8) = 48"
    proof -
      from that have "unat (of_nat (48 + n) :: u8) = 48" by simp
      with digit_byte(2) [OF True] show ?thesis by simp
    qed
    with True show ?thesis by (simp add: dec_digit digit_byte digits_value_def del: of_nat_add)
  next
    case False
    then have "n div 10 < n" "n div 10 \<noteq> 0" by simp_all
    with less.IH [of "n div 10"] False show ?thesis
      by (simp add: dec_step digit_byte digits_value_snoc del: of_nat_add)
  qed
qed

lemma dec_length: "n < 10 ^ k \<Longrightarrow> 0 < k \<Longrightarrow> length (dec n) \<le> k"
proof (induction k arbitrary: n)
  case (Suc k)
  show ?case
  proof (cases "n < 10")
    case False
    with Suc.prems have "n div 10 < 10 ^ k" "0 < k" by (cases k; simp)+
    with Suc.IH False show ?thesis by (simp add: dec_step)
  qed (simp add: dec_digit)
qed simp

text \<open>Digits without a leading zero are the ones that are printed.\<close>

lemma dec_unique:
  "list_all is_digit ds \<Longrightarrow> ds \<noteq> [] \<Longrightarrow> hd ds \<noteq> 48 \<or> length ds = 1 \<Longrightarrow> dec (digits_value ds) = ds"
proof (induction ds rule: rev_induct)
  case (snoc d ds)
  from snoc.prems(1) obtain k where k: "k < 10" "d = of_nat (48 + k)" "unat d = 48 + k"
    using is_digit_unat [of d] by auto
  show ?case
  proof (cases "ds = []")
    case True
    with k show ?thesis by (simp add: digits_value_def dec_digit del: of_nat_add)
  next
    case False
    with snoc.prems have hd: "hd ds \<noteq> 48" by auto
    with snoc False have IH: "dec (digits_value ds) = ds" by simp
    have "digits_value ds \<noteq> 0"
    proof
      assume "digits_value ds = 0"
      with IH have "ds = [48]" by (simp add: dec_digit)
      with hd show False by simp
    qed
    with k IH show ?thesis by (simp add: digits_value_snoc dec_step del: of_nat_add)
  qed
qed simp

text \<open>What is left after a number does not start with a digit.\<close>

definition no_digit :: "rstring \<Rightarrow> bool" where
  "no_digit s \<longleftrightarrow> (s = [] \<or> \<not> is_digit (hd s))"

lemma takeWhile_no_digit:
  assumes "list_all is_digit ds" and "no_digit r"
  shows "takeWhile is_digit (ds @ r) = ds \<and> dropWhile is_digit (ds @ r) = r"
  using assms by (induction ds) (auto simp: no_digit_def takeWhile_eq_Nil_iff dropWhile_eq_self_iff)

lemma read_number_iff: "read_number s = Some (b, r) \<longleftrightarrow> s = show_octet b @ r \<and> no_digit r"
proof
  assume "s = show_octet b @ r \<and> no_digit r"
  moreover have "length (dec (unat b)) \<le> 3" using dec_length [of "unat b" 3] unat_u8_less [of b] by simp
  moreover have "hd (dec (unat b)) = 48 \<Longrightarrow> length (dec (unat b)) = 1"
    using dec_digits [of "unat b"] by (simp add: dec_digit)
  moreover have nb: "(255 < unat b) = False" by (simp add: not_less)
  ultimately show "read_number s = Some (b, r)"
    using dec_digits [of "unat b"] takeWhile_no_digit [of "dec (unat b)" r]
    by (auto simp: read_number_def show_octet_def dec_def [symmetric] Let_def nb)
next
  assume r: "read_number s = Some (b, r)"
  let ?ds = "takeWhile is_digit s"
  from r have ds0: "?ds \<noteq> []" "digits_value ?ds \<le> 255" "hd ?ds \<noteq> 48 \<or> \<not> 1 < length ?ds"
    and b: "b = of_nat (digits_value ?ds)" "r = dropWhile is_digit s"
    by (auto simp: read_number_def Let_def split: if_splits)
  from ds0 have ds: "?ds \<noteq> []" "digits_value ?ds \<le> 255" "hd ?ds \<noteq> 48 \<or> length ?ds = 1"
    by (auto simp: not_less le_Suc_eq)
  have "list_all is_digit ?ds" by (auto simp: list_all_iff dest: set_takeWhileD)
  from dec_unique [OF this ds(1,3)] ds(2) b(1) have "show_octet b = ?ds"
    by (simp add: show_octet_def dec_def)
  with b(2) have "s = show_octet b @ r" by simp
  moreover have "no_digit r" using b(2) by (metis hd_dropWhile no_digit_def)
  ultimately show "s = show_octet b @ r \<and> no_digit r" ..
qed

lemma read_given_char_iff: "read_given_char c s = Some r \<longleftrightarrow> s = c # r"
  by (auto simp: read_given_char_def split: list.split)

lemma no_digit_dot [simp]: "no_digit (dot # r)" "no_digit []"
  by (simp_all add: no_digit_def is_digit_def dot_def)

lemma Ipv4Addr_parse_iff: "Ipv4Addr_parse s = Some ip \<longleftrightarrow> s = Ipv4Addr_show ip"
proof
  assume "Ipv4Addr_parse s = Some ip"
  then show "s = Ipv4Addr_show ip"
    by (auto simp: Ipv4Addr_parse_def Ipv4Addr_show_def read_number_iff read_given_char_iff bind_eq_Some_conv
        split: if_splits)
next
  assume s: "s = Ipv4Addr_show ip"
  obtain a b c d where ip: "ip = (a, b, c, d)" by (cases ip)
  have num: "read_number (show_octet x @ dot # r) = Some (x, dot # r)" "read_number (show_octet x) = Some (x, [])" for x r
    by (simp_all add: read_number_iff)
  have chr: "read_given_char dot (dot # r) = Some r" for r by (simp add: read_given_char_iff)
  show "Ipv4Addr_parse s = Some ip"
    by (simp add: s ip Ipv4Addr_parse_def Ipv4Addr_show_def num chr)
qed

lemma Ipv4Addr_bits [simp]: "Ipv4Addr_from_bits (Ipv4Addr_to_bits ip) = ip" "Ipv4Addr_to_bits (Ipv4Addr_from_bits x) = x"
  by (cases ip; simp add: Ipv4Addr_from_bits_def Ipv4Addr_to_bits_def)
     (simp add: Ipv4Addr_from_bits_def Ipv4Addr_to_bits_def be32_def)

section \<open>Properties\<close>

text \<open>The client accepts exactly the canonical dotted addresses, and the address it sends is the one
  that a listing prints for it: \<open>add\<close> with the text \<open>s\<close> gives a request for address \<open>x\<close> exactly when
  \<open>s\<close> is how \<open>x\<close> is printed, and every other text ends the client with status 1 and no request.\<close>

lemma cli_add_address:
  "(cli_message (CmdAdd name s port) = Ok (ReqAdd name x port) \<longleftrightarrow> s = Ipv4Addr_show (Ipv4Addr_from_bits x)) \<and>
   (cli_message (CmdAdd name s port) = Err [Eprintln (lit ''Invalid IP address: '' @ s), Exit 1]
     \<longleftrightarrow> s \<notin> range (\<lambda>y. Ipv4Addr_show (Ipv4Addr_from_bits y)))"
proof (cases "Ipv4Addr_parse s")
  case None
  then have "s \<noteq> Ipv4Addr_show ip" for ip using Ipv4Addr_parse_iff [of s ip] by auto
  then have "s \<notin> range (\<lambda>y. Ipv4Addr_show (Ipv4Addr_from_bits y))" "s \<noteq> Ipv4Addr_show (Ipv4Addr_from_bits x)" by blast+
  with None show ?thesis by (simp add: cli_message_def)
next
  case (Some ip)
  then have s: "s = Ipv4Addr_show ip" using Ipv4Addr_parse_iff by blast
  then have "s = Ipv4Addr_show (Ipv4Addr_from_bits x) \<longleftrightarrow> Ipv4Addr_to_bits ip = x" for x
    using Some Ipv4Addr_parse_iff [of s "Ipv4Addr_from_bits x"] by auto
  with Some s show ?thesis by (auto simp: cli_message_def)
qed

end
