(* ===== verification/Test_Server.thy ===== *)
theory Test_Server
  imports Device_Msg Rust_Std
begin

text \<open>
  The device simulator (\<open>test-server/src/main.rs\<close>): the loop that serves one client. Its state is the last
  status it answered a control request with. An input is the branch of \<open>select!\<close> that became ready, with
  the outcome of the send in it: a piece of standard input, a message or an error from the client, or
  the case that both streams have ended, in which \<open>select!\<close> panics. A failed send panics
  (\<open>expect\<close>).

  Around it the whole simulator: the task that reads standard input and broadcasts it, the loop that accepts
  clients, and the clients, each with its receiver of the broadcast channel.
\<close>

datatype server_in =
    Input "u8 list" "(unit, io_error) Result"
  | FromClient "(DeviceMessage, io_error) Result" "(unit, io_error) Result"
  | AllClosed

text \<open>\<open>framed.send(m).await.expect(..)\<close>\<close>

definition send_expect ::
  "DeviceControlResponse \<Rightarrow> DeviceMessage \<Rightarrow> (unit, io_error) Result
     \<Rightarrow> (DeviceControlResponse \<times> DeviceMessage list) outcome" where
  "send_expect status m io = (case io of Ok _ \<Rightarrow> Done (status, [m]) | Err e \<Rightarrow> Panicked)"

definition handle_conn_step ::
  "DeviceControlResponse \<Rightarrow> server_in \<Rightarrow> (DeviceControlResponse \<times> DeviceMessage list) outcome" where
  "handle_conn_step last_ctl_resp_status i =
     (case i of
        Input bytes io \<Rightarrow>
          (case DeviceMessage_from bytes of
             None \<Rightarrow> Panicked
           | Some m \<Rightarrow> send_expect last_ctl_resp_status m io)
      | FromClient msg io \<Rightarrow>
          (case msg of
             Ok (Data sz arr) \<Rightarrow>
               (case slice_to arr (unat sz) of None \<Rightarrow> Panicked | Some _ \<Rightarrow> Done (last_ctl_resp_status, []))
           | Ok (Config _ _ _ _ _) \<Rightarrow> Done (last_ctl_resp_status, [])
           | Ok (ControlReq cmd) \<Rightarrow>
               (let status = (if last_ctl_resp_status = CtlOk then CtlNotSupported else CtlOk)
                in send_expect status (ControlRes status) io)
           | Ok (ControlRes _) \<Rightarrow> Done (last_ctl_resp_status, [])
           | Err e \<Rightarrow> Done (last_ctl_resp_status, []))
      | AllClosed \<Rightarrow> Panicked)"

text \<open>The loop, after the inputs so far: the status and the messages sent.\<close>

fun handle_conn ::
  "DeviceControlResponse \<Rightarrow> server_in list \<Rightarrow> (DeviceControlResponse \<times> DeviceMessage list) outcome" where
  "handle_conn status [] = Done (status, [])"
| "handle_conn status (i # is) =
     (case handle_conn_step status i of
        Suspended \<Rightarrow> Suspended
      | Panicked \<Rightarrow> Panicked
      | Done (status', out) \<Rightarrow>
          (case handle_conn status' is of
             Done (status'', out') \<Rightarrow> Done (status'', out @ out')
           | r \<Rightarrow> r))"

section \<open>The simulator as a whole\<close>

definition STDIN_CAPACITY :: nat where
  "STDIN_CAPACITY = 128"

text \<open>
  One task of \<open>handle_conn\<close>: the position of its receiver, its status, which branches of the running \<open>select!\<close>
  have been disabled because their pattern did not match, whether it still runs, and the messages it has
  sent. The last two fields are history: where the receiver started, and how many inputs it was told to have missed.
\<close>

record sim_client =
  sc_pos :: nat
  sc_status :: DeviceControlResponse
  sc_input_off :: bool
  sc_client_off :: bool
  sc_running :: bool
  sc_out :: "DeviceMessage list"
  sc_from :: nat
  sc_missed :: nat

record simulator =
  si_sent :: "rstring list" \<comment> \<open>everything broadcast so far\<close>
  si_stdin_open :: bool \<comment> \<open>the task that reads standard input runs and holds the sender\<close>
  si_clients :: "sim_client list"
  si_running :: bool

definition sim_init :: simulator where
  "sim_init = \<lparr>si_sent = [], si_stdin_open = True, si_clients = [], si_running = True\<rparr>"

text \<open>
  The reader of standard input. A failed read panics (\<open>unwrap\<close>), the end of the input ends the loop; both drop
  the sender. The send never fails, because \<open>main\<close> keeps a receiver.
\<close>

definition stdin_step :: "simulator \<Rightarrow> (u8 list, io_error) Result \<Rightarrow> simulator option" where
  "stdin_step S r =
     (if \<not> si_stdin_open S then None
      else case r of
             Err e \<Rightarrow> Some (S\<lparr>si_stdin_open := False\<rparr>)
           | Ok bytes \<Rightarrow>
               if MAX_MESSAGE_LEN < length bytes then None
               else if length bytes = 0 then Some (S\<lparr>si_stdin_open := False\<rparr>)
               else Some (S\<lparr>si_sent := si_sent S @ [from_utf8_lossy bytes]\<rparr>))"

text \<open>The accept loop: a new client is subscribed from here on; an error ends the program.\<close>

definition accept_step :: "simulator \<Rightarrow> (unit, io_error) Result \<Rightarrow> simulator" where
  "accept_step S r =
     (case r of
        Err e \<Rightarrow> S\<lparr>si_running := False\<rparr>
      | Ok _ \<Rightarrow>
          S\<lparr>si_clients := si_clients S @
              [\<lparr>sc_pos = length (si_sent S), sc_status = CtlNotSupported, sc_input_off = False, sc_client_off = False,
                sc_running = True, sc_out = [], sc_from = length (si_sent S), sc_missed = 0\<rparr>]\<rparr>)"

text \<open>
  \<open>broadcast::Receiver::recv\<close> as documented: the next value, or how many values were overwritten before they
  were received, or that the sender is gone; nothing while there is nothing new.
\<close>

datatype broadcast_result = RecvOk rstring | RecvLagged nat | RecvClosed

definition broadcast_recv :: "simulator \<Rightarrow> nat \<Rightarrow> (broadcast_result \<times> nat) option" where
  "broadcast_recv S pos =
     (let oldest = length (si_sent S) - STDIN_CAPACITY
      in if pos < oldest then Some (RecvLagged (oldest - pos), oldest)
         else if pos < length (si_sent S) then Some (RecvOk (si_sent S ! pos), Suc pos)
         else if si_stdin_open S then None
         else Some (RecvClosed, pos))"

text \<open>The end of an iteration of \<open>handle_conn\<close>, and a branch whose pattern does not match.\<close>

definition end_iteration ::
  "sim_client \<Rightarrow> (DeviceControlResponse \<times> DeviceMessage list) outcome \<Rightarrow> sim_client" where
  "end_iteration c r =
     (case r of
        Done (status, out) \<Rightarrow>
          c\<lparr>sc_status := status, sc_out := sc_out c @ out, sc_input_off := False, sc_client_off := False\<rparr>
      | _ \<Rightarrow> c\<lparr>sc_running := False\<rparr>)"

definition all_disabled :: "sim_client \<Rightarrow> sim_client" where
  "all_disabled c = (if sc_input_off c \<and> sc_client_off c then end_iteration c (handle_conn_step (sc_status c) AllClosed) else c)"

definition client_input :: "simulator \<Rightarrow> sim_client \<Rightarrow> (unit, io_error) Result \<Rightarrow> sim_client option" where
  "client_input S c io =
     (if \<not> sc_running c \<or> sc_input_off c then None
      else case broadcast_recv S (sc_pos c) of
             None \<Rightarrow> None
           | Some (RecvOk input, pos) \<Rightarrow>
               Some (end_iteration (c\<lparr>sc_pos := pos\<rparr>) (handle_conn_step (sc_status c) (Input input io)))
           | Some (RecvLagged n, pos) \<Rightarrow>
               Some (all_disabled (c\<lparr>sc_pos := pos, sc_missed := sc_missed c + n, sc_input_off := True\<rparr>))
           | Some (RecvClosed, pos) \<Rightarrow> Some (all_disabled (c\<lparr>sc_input_off := True\<rparr>)))"

definition client_message ::
  "sim_client \<Rightarrow> (DeviceMessage, io_error) Result option \<Rightarrow> (unit, io_error) Result \<Rightarrow> sim_client option" where
  "client_message c next io =
     (if \<not> sc_running c \<or> sc_client_off c then None
      else case next of
             Some msg \<Rightarrow> Some (end_iteration c (handle_conn_step (sc_status c) (FromClient msg io)))
           | None \<Rightarrow> Some (all_disabled (c\<lparr>sc_client_off := True\<rparr>)))"

datatype sim_act =
    SimStdin "(u8 list, io_error) Result"
  | SimAccept "(unit, io_error) Result"
  | SimInput nat "(unit, io_error) Result"
  | SimMessage nat "(DeviceMessage, io_error) Result option" "(unit, io_error) Result"

definition with_client :: "simulator \<Rightarrow> nat \<Rightarrow> (sim_client \<Rightarrow> sim_client option) \<Rightarrow> simulator option" where
  "with_client S i f =
     (if i < length (si_clients S)
      then map_option (\<lambda>c. S\<lparr>si_clients := (si_clients S)[i := c]\<rparr>) (f (si_clients S ! i)) else None)"

fun sim_do :: "sim_act \<Rightarrow> simulator \<Rightarrow> simulator option" where
  "sim_do (SimStdin r) S = stdin_step S r"
| "sim_do (SimAccept r) S = Some (accept_step S r)"
| "sim_do (SimInput i io) S = with_client S i (\<lambda>c. client_input S c io)"
| "sim_do (SimMessage i next io) S = with_client S i (\<lambda>c. client_message c next io)"

fun sim_run :: "sim_act list \<Rightarrow> simulator \<Rightarrow> simulator option" where
  "sim_run [] S = Some S"
| "sim_run (a # as) S =
     (if si_running S then (case sim_do a S of None \<Rightarrow> None | Some S' \<Rightarrow> sim_run as S') else None)"

section \<open>Histories\<close>

fun control_requests :: "server_in list \<Rightarrow> nat" where
  "control_requests [] = 0"
| "control_requests (FromClient (Ok (ControlReq _)) _ # is) = Suc (control_requests is)"
| "control_requests (_ # is) = control_requests is"

fun control_results :: "DeviceMessage list \<Rightarrow> DeviceControlResponse list" where
  "control_results [] = []"
| "control_results (ControlRes r # ms) = r # control_results ms"
| "control_results (_ # ms) = control_results ms"

fun toggled :: "DeviceControlResponse \<Rightarrow> nat \<Rightarrow> DeviceControlResponse list" where
  "toggled s 0 = []"
| "toggled s (Suc n) = (let s' = (if s = CtlOk then CtlNotSupported else CtlOk) in s' # toggled s' n)"

lemma control_results_append [simp]: "control_results (ms @ ns) = control_results ms @ control_results ns"
  by (induction ms rule: control_results.induct) simp_all

lemma handle_conn_results:
  "handle_conn s ins = Done (s', out) \<Longrightarrow> control_results out = toggled s (control_requests ins)"
proof (induction ins arbitrary: s out rule: control_requests.induct)
  case (2 c io "is")
  then show ?case
    by (auto simp: handle_conn_step_def send_expect_def Let_def split: outcome.splits Result.splits if_splits)
qed (auto simp: handle_conn_step_def send_expect_def DeviceMessage_from_eq
      split: outcome.splits Result.splits option.splits)

lemma toggled_nth: "k < n \<Longrightarrow> toggled CtlNotSupported n ! k = (if even k then CtlOk else CtlNotSupported)
     \<and> toggled CtlOk n ! k = (if even k then CtlNotSupported else CtlOk)"
proof (induction n arbitrary: k)
  case (Suc n)
  then show ?case by (cases k) (simp_all add: Let_def)
qed simp

lemma length_toggled [simp]: "length (toggled s n) = n"
  by (induction n arbitrary: s) (simp_all add: Let_def)

section \<open>What the clients are sent\<close>

text \<open>The pieces of standard input that were read, and the data messages among those sent.\<close>

fun stdin_reads :: "sim_act list \<Rightarrow> u8 list list" where
  "stdin_reads [] = []"
| "stdin_reads (SimStdin (Ok bytes) # as) = (if bytes = [] then [] else [bytes]) @ stdin_reads as"
| "stdin_reads (_ # as) = stdin_reads as"

fun data_sent :: "DeviceMessage list \<Rightarrow> u8 list list" where
  "data_sent [] = []"
| "data_sent (Data n arr # ms) = take (unat n) arr # data_sent ms"
| "data_sent (_ # ms) = data_sent ms"

lemma data_sent_append [simp]: "data_sent (ms @ ns) = data_sent ms @ data_sent ns"
  by (induction ms rule: data_sent.induct) simp_all

text \<open>The inputs a client has been sent are those at increasing positions of what was broadcast.\<close>

definition client_ok :: "rstring list \<Rightarrow> sim_client \<Rightarrow> bool" where
  "client_ok sent c \<longleftrightarrow> sc_from c \<le> sc_pos c \<and> sc_pos c \<le> length sent \<and>
     (\<exists>seen. sorted_wrt (<) seen \<and> set seen \<subseteq> {sc_from c..<sc_pos c} \<and>
        data_sent (sc_out c) = map (\<lambda>i. take 255 (sent ! i)) seen \<and>
        (sc_running c \<longrightarrow> length seen + sc_missed c = sc_pos c - sc_from c))"

lemma client_okI:
  "sc_from c \<le> sc_pos c \<Longrightarrow> sc_pos c \<le> length sent \<Longrightarrow> sorted_wrt (<) seen \<Longrightarrow> set seen \<subseteq> {sc_from c..<sc_pos c} \<Longrightarrow>
   data_sent (sc_out c) = map (\<lambda>i. take 255 (sent ! i)) seen \<Longrightarrow>
   (sc_running c \<Longrightarrow> length seen + sc_missed c = sc_pos c - sc_from c) \<Longrightarrow> client_ok sent c"
  unfolding client_ok_def by blast

lemma client_okE:
  assumes "client_ok sent c"
  obtains seen where "sc_from c \<le> sc_pos c" "sc_pos c \<le> length sent" "sorted_wrt (<) seen"
    "\<forall>i \<in> set seen. sc_from c \<le> i \<and> i < sc_pos c" "data_sent (sc_out c) = map (\<lambda>i. take 255 (sent ! i)) seen"
    "sc_running c \<longrightarrow> length seen + sc_missed c = sc_pos c - sc_from c"
  using assms unfolding client_ok_def by (meson atLeastLessThan_iff subsetD)

lemma client_ok_more: "client_ok sent c \<Longrightarrow> client_ok (sent @ new) c"
  by (erule client_okE, rule client_okI) (fastforce simp: nth_append)+

lemma from_client_no_data:
  "handle_conn_step s (FromClient msg io) = Done (s', out) \<Longrightarrow> data_sent out = []"
  by (auto simp: handle_conn_step_def send_expect_def Let_def
      split: Result.splits DeviceMessage.splits option.splits if_splits)

lemma input_data:
  "handle_conn_step s (Input bytes io) = Done (s', out) \<Longrightarrow> data_sent out = [take 255 bytes]"
  by (auto simp: handle_conn_step_def send_expect_def DeviceMessage_from_eq unat_of_nat min_def split: Result.splits)

lemma end_iteration_ok:
  assumes "client_ok sent c" and "\<And>s out. r = Done (s, out) \<Longrightarrow> data_sent out = []"
  shows "client_ok sent (end_iteration c r)"
  using assms by (cases r) (auto simp: end_iteration_def client_ok_def split: prod.split)

lemma all_disabled_ok: "client_ok sent c \<Longrightarrow> client_ok sent (all_disabled c)"
  by (auto simp: all_disabled_def handle_conn_step_def intro: end_iteration_ok)

lemma client_message_ok:
  assumes "client_ok sent c" and "client_message c next io = Some c'"
  shows "client_ok sent c'"
proof (cases "next")
  case None
  have "client_ok sent (c\<lparr>sc_client_off := True\<rparr>)" using assms(1) by (simp add: client_ok_def)
  with None assms(2) show ?thesis by (auto simp: client_message_def all_disabled_ok split: if_splits)
next
  case (Some msg)
  have "client_ok sent (end_iteration c (handle_conn_step (sc_status c) (FromClient msg io)))"
    by (rule end_iteration_ok [OF assms(1)]) (rule from_client_no_data)
  with Some assms(2) show ?thesis by (simp add: client_message_def split: if_splits)
qed

lemma client_received_ok:
  assumes "client_ok sent c" and "sc_pos c < length sent" and "sc_running c"
  shows "client_ok sent (end_iteration (c\<lparr>sc_pos := Suc (sc_pos c)\<rparr>) (handle_conn_step (sc_status c) (Input (sent ! sc_pos c) io)))"
  using assms(1)
proof (rule client_okE)
  fix seen
  assume c: "sc_from c \<le> sc_pos c" "sc_pos c \<le> length sent" "sorted_wrt (<) seen"
    "\<forall>i \<in> set seen. sc_from c \<le> i \<and> i < sc_pos c" "data_sent (sc_out c) = map (\<lambda>i. take 255 (sent ! i)) seen"
    "sc_running c \<longrightarrow> length seen + sc_missed c = sc_pos c - sc_from c"
  show ?thesis
  proof (cases "handle_conn_step (sc_status c) (Input (sent ! sc_pos c) io)")
    case (Done r)
    obtain s out where r: "r = (s, out)" by (cases r)
    from input_data [OF Done [unfolded r]] Done r c assms(2,3) show ?thesis
      by (intro client_okI [where seen = "seen @ [sc_pos c]"])
        (auto simp: end_iteration_def sorted_wrt_append Suc_diff_le less_Suc_eq)
  qed (use c assms(2) in \<open>auto intro!: client_okI [where seen = seen] simp: end_iteration_def less_Suc_eq\<close>)
qed

lemma client_input_ok:
  assumes "client_ok (si_sent S) c" and "client_input S c io = Some c'"
  shows "client_ok (si_sent S) c'"
proof -
  let ?oldest = "length (si_sent S) - STDIN_CAPACITY"
  from assms(2) have run: "sc_running c" by (simp add: client_input_def split: if_splits)
  consider (Lagged) "sc_pos c < ?oldest" | (Next) "?oldest \<le> sc_pos c" "sc_pos c < length (si_sent S)"
    | (End) "?oldest \<le> sc_pos c" "length (si_sent S) \<le> sc_pos c"
    by linarith
  then show ?thesis
  proof cases
    case Lagged
    from assms(1) obtain seen where "sc_from c \<le> sc_pos c" "sc_pos c \<le> length (si_sent S)" "sorted_wrt (<) seen"
      "\<forall>i \<in> set seen. sc_from c \<le> i \<and> i < sc_pos c" "data_sent (sc_out c) = map (\<lambda>i. take 255 (si_sent S ! i)) seen"
      "sc_running c \<longrightarrow> length seen + sc_missed c = sc_pos c - sc_from c"
      by (rule client_okE)
    with Lagged run have "client_ok (si_sent S)
        (c\<lparr>sc_pos := ?oldest, sc_missed := sc_missed c + (?oldest - sc_pos c), sc_input_off := True\<rparr>)"
      by (intro client_okI [where seen = seen]) fastforce+
    with Lagged assms(2) show ?thesis
      by (auto simp: client_input_def broadcast_recv_def all_disabled_ok split: if_splits)
  next
    case Next
    with client_received_ok [OF assms(1) Next(2) run] assms(2) show ?thesis
      by (auto simp: client_input_def broadcast_recv_def split: if_splits)
  next
    case End
    have "client_ok (si_sent S) (c\<lparr>sc_input_off := True\<rparr>)" using assms(1) by (simp add: client_ok_def)
    with End assms(2) show ?thesis
      by (auto simp: client_input_def broadcast_recv_def all_disabled_ok split: if_splits)
  qed
qed

definition sim_ok :: "simulator \<Rightarrow> bool" where
  "sim_ok S \<longleftrightarrow> (\<forall>c \<in> set (si_clients S). client_ok (si_sent S) c)"

lemma with_client_ok:
  assumes "sim_ok S" and "\<And>c c'. client_ok (si_sent S) c \<Longrightarrow> f c = Some c' \<Longrightarrow> client_ok (si_sent S) c'"
    and "with_client S i f = Some S'"
  shows "sim_ok S' \<and> si_sent S' = si_sent S"
proof -
  from assms(3) obtain c where c: "i < length (si_clients S)" "f (si_clients S ! i) = Some c"
    "S' = S\<lparr>si_clients := (si_clients S)[i := c]\<rparr>"
    by (auto simp: with_client_def split: if_splits)
  have "client_ok (si_sent S) c" using assms(1) c(1) by (intro assms(2) [OF _ c(2)]) (simp add: sim_ok_def)
  with assms(1) c(3) show ?thesis
    by (auto simp: sim_ok_def dest!: set_update_subset_insert [THEN subsetD])
qed

lemma sim_do_ok:
  assumes "sim_ok S" and "sim_do a S = Some S'"
  shows "sim_ok S' \<and> si_sent S' = si_sent S @ map from_utf8_lossy (stdin_reads [a])"
proof (cases a)
  case (SimStdin r)
  with assms show ?thesis
    by (cases r) (auto simp: stdin_step_def sim_ok_def client_ok_more split: if_splits)
next
  case (SimAccept r)
  with assms show ?thesis
    by (cases r) (auto simp: accept_step_def sim_ok_def client_ok_def)
next
  case (SimInput i io)
  with assms with_client_ok [OF assms(1) client_input_ok] show ?thesis by simp
next
  case (SimMessage i "next" io)
  with assms with_client_ok [OF assms(1) client_message_ok] show ?thesis by simp
qed

lemma stdin_reads_Cons: "stdin_reads (a # as) = stdin_reads [a] @ stdin_reads as"
  by (cases "a # as" rule: stdin_reads.cases) auto

lemma sim_run_ok:
  "sim_ok S \<Longrightarrow> sim_run as S = Some S' \<Longrightarrow> sim_ok S' \<and> si_sent S' = si_sent S @ map from_utf8_lossy (stdin_reads as)"
proof (induction "as" arbitrary: S)
  case (Cons a "as")
  from Cons.prems(2) obtain S1 where S1: "sim_do a S = Some S1" "sim_run as S1 = Some S'"
    by (auto split: if_splits option.splits)
  from sim_do_ok [OF Cons.prems(1) S1(1)] Cons.IH [OF _ S1(2)] show ?case
    by (simp add: stdin_reads_Cons [of a "as"] del: stdin_reads.simps)
qed simp

lemma data_sent_truncates: "utf8_valid bytes \<Longrightarrow> length bytes \<le> MAX_MESSAGE_LEN \<Longrightarrow> take 255 (from_utf8_lossy bytes) = bytes"
  by (simp add: from_utf8_lossy_valid MAX_MESSAGE_LEN_def)

section \<open>Properties\<close>

text \<open>The simulator answers every control request exactly once and in order, and its answers
  alternate between success and not supported, beginning with success.\<close>

lemma test_server_alternates:
  assumes "handle_conn CtlNotSupported ins = Done (s, out)"
  shows "control_results out
     = map (\<lambda>k. if even k then CtlOk else CtlNotSupported) [0..<control_requests ins]"
  using handle_conn_results [OF assms] by (auto intro!: nth_equalityI simp: toggled_nth)

text \<open>What the simulator sends its clients. In every state it can reach, the data messages a client has been
  sent are pieces of standard input read since the client was accepted, at most once each and in the
  order they were read, cut to 255 bytes after bytes that are not UTF-8 were replaced. While the task of the
  client runs, the pieces that it was not sent and that its receiver has passed are exactly as many as the broadcast
  channel has reported as missed.\<close>

lemma simulator_sends_input:
  assumes "sim_run acts sim_init = Some S" and "c \<in> set (si_clients S)"
  shows "\<exists>seen. sorted_wrt (<) seen \<and> set seen \<subseteq> {sc_from c..<sc_pos c} \<and> sc_pos c \<le> length (stdin_reads acts) \<and>
    data_sent (sc_out c) = map (\<lambda>i. take 255 (from_utf8_lossy (stdin_reads acts ! i))) seen \<and>
    (sc_running c \<longrightarrow> length seen + sc_missed c = sc_pos c - sc_from c)"
proof -
  have "sim_ok sim_init" by (simp add: sim_ok_def sim_init_def)
  from sim_run_ok [OF this assms(1)] assms(2)
  have sent: "si_sent S = map from_utf8_lossy (stdin_reads acts)" and ok: "client_ok (si_sent S) c"
    by (auto simp: sim_ok_def sim_init_def)
  from ok obtain seen where "sc_from c \<le> sc_pos c" "sc_pos c \<le> length (si_sent S)" "sorted_wrt (<) seen"
    "\<forall>i \<in> set seen. sc_from c \<le> i \<and> i < sc_pos c" "data_sent (sc_out c) = map (\<lambda>i. take 255 (si_sent S ! i)) seen"
    "sc_running c \<longrightarrow> length seen + sc_missed c = sc_pos c - sc_from c"
    by (rule client_okE)
  then show ?thesis by (intro exI [of _ seen]) (fastforce simp: sent)
qed

end
