(* ===== verification/Fw_Message.thy ===== *)
theory Fw_Message
  imports Device_Msg
begin

text \<open>
  The firmware's side of the device protocol: the layout of \<open>server/main/message.h\<close> and the reader of
  \<open>server/main/tcp.c\<close> (\<open>read_all\<close>, \<open>read_msg\<close>).

  \<open>recv\<close> belongs to the network stack and is an argument: given a socket and the number of bytes asked
  for, it returns what was received (nothing, when the peer has closed), or that it failed, and
  the socket; \<open>None\<close> means that it waits forever. What the reader relies on is the locale
  \<open>stream_socket\<close>: while bytes of the stream are outstanding, \<open>recv\<close> delivers a non-empty piece of them, at
  most as long as asked for. A socket that holds the stream in arbitrary pieces is an instance.

  Buffers are lists; a local variable starts with arbitrary contents, which are an argument.
\<close>

section \<open>Messages\<close>

definition MAX_MESSAGE_BODY_SIZE :: nat where
  "MAX_MESSAGE_BODY_SIZE = 255"

definition MESSAGE_KIND_DATA :: u8 where
  "MESSAGE_KIND_DATA = 1"

definition MESSAGE_KIND_CONFIG :: u8 where
  "MESSAGE_KIND_CONFIG = 2"

definition MESSAGE_KIND_CONTROL :: u8 where
  "MESSAGE_KIND_CONTROL = 3"

definition MESSAGE_KIND_RESPONSE :: u8 where
  "MESSAGE_KIND_RESPONSE = 4"

record Message =
  hdr_kind :: u8
  hdr_len :: u8
  body :: "u8 list"

definition sizeof_Header :: nat where
  "sizeof_Header = 2"

section \<open>Reading from the socket\<close>

datatype recv_result = Received "u8 list" | RecvFailed

type_synonym 's recv_fn = "'s \<Rightarrow> nat \<Rightarrow> (recv_result \<times> 's) option"

text \<open>\<open>total_read\<close> bytes of \<open>buf\<close> are there; \<open>True\<close> is the return value \<open>0\<close>, \<open>False\<close> is \<open>-1\<close>.\<close>

function read_all :: "'s recv_fn \<Rightarrow> nat \<Rightarrow> nat \<Rightarrow> u8 list \<Rightarrow> 's \<Rightarrow> (bool \<times> u8 list \<times> 's) option" where
  "read_all recv sz total_read buf sock =
     (if total_read < sz then
        (case recv sock (sz - total_read) of
           None \<Rightarrow> None
         | Some (Received bs, sock') \<Rightarrow>
             if bs = [] then Some (False, buf, sock')
             else read_all recv sz (total_read + length bs)
                    (take total_read buf @ bs @ drop (total_read + length bs) buf) sock'
         | Some (RecvFailed, sock') \<Rightarrow> Some (False, buf, sock'))
      else Some (True, buf, sock))"
  by pat_completeness auto

termination
  by (relation "measure (\<lambda>(_, sz, total_read, _). sz - total_read)") (auto intro: diff_less_mono2)

definition read_msg :: "'s recv_fn \<Rightarrow> 's \<Rightarrow> Message \<Rightarrow> (bool \<times> Message \<times> 's) option" where
  "read_msg recv sock msg =
     (case read_all recv sizeof_Header 0 [hdr_kind msg, hdr_len msg] sock of
        None \<Rightarrow> None
      | Some (ok, hdr, sock1) \<Rightarrow>
          (let msg1 = msg\<lparr>hdr_kind := hdr ! 0, hdr_len := hdr ! 1\<rparr>
           in if \<not> ok then Some (False, msg1, sock1)
              else (case read_all recv (unat (hdr_len msg1)) 0 (body msg1) sock1 of
                      None \<Rightarrow> None
                    | Some (ok, bd, sock2) \<Rightarrow> Some (ok, msg1\<lparr>body := bd\<rparr>, sock2))))"

text \<open>Reading one message after another, as the loop of \<open>handle_client\<close> does while messages arrive.\<close>

fun read_msgs :: "'s recv_fn \<Rightarrow> nat \<Rightarrow> 's \<Rightarrow> Message \<Rightarrow> (Message list \<times> 's) option" where
  "read_msgs recv 0 sock msg = Some ([], sock)"
| "read_msgs recv (Suc n) sock msg =
     (case read_msg recv sock msg of
        Some (True, m, sock') \<Rightarrow> map_option (\<lambda>(ms, s). (m # ms, s)) (read_msgs recv n sock' msg)
      | _ \<Rightarrow> None)"

declare read_all.simps [simp del]

text \<open>The \<open>Message\<close> that a message of the daemon becomes, in a buffer with the contents \<open>old\<close>.\<close>

definition fw_message :: "DeviceMessage \<Rightarrow> u8 list \<Rightarrow> Message" where
  "fw_message m old =
     \<lparr>hdr_kind = kind m, hdr_len = of_nat (data_size m), body = payload m @ drop (data_size m) old\<rparr>"

section \<open>Stream sockets\<close>

locale stream_socket =
  fixes recv :: "'s recv_fn"
    and outstanding :: "'s \<Rightarrow> u8 list"
  assumes recv_more: "outstanding s \<noteq> [] \<Longrightarrow> 0 < n \<Longrightarrow>
      \<exists>bs s'. recv s n = Some (Received bs, s') \<and> bs \<noteq> [] \<and> length bs \<le> n \<and>
        outstanding s = bs @ outstanding s'"
begin

lemma read_all_exact:
  assumes "sz - got \<le> length (outstanding s)" and "got \<le> sz" and "sz \<le> length buf"
  shows "\<exists>s'. read_all recv sz got buf s
      = Some (True, take got buf @ take (sz - got) (outstanding s) @ drop sz buf, s') \<and>
     outstanding s' = drop (sz - got) (outstanding s)"
  using assms
proof (induction "sz - got" arbitrary: got buf s rule: less_induct)
  case less
  show ?case
  proof (cases "got < sz")
    case False
    with less.prems show ?thesis by (simp add: read_all.simps [of _ sz])
  next
    case True
    then have "outstanding s \<noteq> []" "0 < sz - got" using less.prems by auto
    from recv_more [OF this] obtain bs s1 where r: "recv s (sz - got) = Some (Received bs, s1)"
      and bs: "bs \<noteq> []" "length bs \<le> sz - got" "outstanding s = bs @ outstanding s1" by blast
    let ?buf = "take got buf @ bs @ drop (got + length bs) buf"
    have step: "read_all recv sz got buf s = read_all recv sz (got + length bs) ?buf s1"
      using True r bs(1) by (simp add: read_all.simps [of _ sz got])
    have len: "got + length bs \<le> sz" "sz \<le> length ?buf" "sz - (got + length bs) \<le> length (outstanding s1)"
      "sz - (got + length bs) < sz - got"
      using True bs less.prems by (auto intro: diff_less_mono2)
    from less.hyps [OF len(4,3,1,2)] obtain s' where
      "read_all recv sz (got + length bs) ?buf s1 = Some (True, take (got + length bs) ?buf @
         take (sz - (got + length bs)) (outstanding s1) @ drop sz ?buf, s')"
      "outstanding s' = drop (sz - (got + length bs)) (outstanding s1)" by blast
    with step bs len less.prems show ?thesis
      by (simp add: drop_append)
  qed
qed

text \<open>A message of the daemon, in the buffer of a \<open>Message\<close>.\<close>

lemma read_msg_wire:
  assumes wf: "DeviceMessage_wf m" and s: "outstanding s = device_wire m @ later" and b: "length (body msg) = MAX_MESSAGE_BODY_SIZE"
  shows "\<exists>s'. read_msg recv s msg = Some (True, fw_message m (body msg), s') \<and> outstanding s' = later"
proof -
  let ?n = "data_size m"
  have n: "unat (of_nat ?n :: u8) = ?n" using data_size_le [of m] by simp
  have len: "length (payload m) = ?n" by (rule length_payload [OF wf])
  have "2 - 0 \<le> length (outstanding s)" "0 \<le> (2::nat)" "2 \<le> length [hdr_kind msg, hdr_len msg]"
    by (simp_all add: s device_wire_def)
  from read_all_exact [OF this] obtain s1 where
    hdr: "read_all recv 2 0 [hdr_kind msg, hdr_len msg] s = Some (True, [kind m, of_nat ?n], s1)"
    and s1: "outstanding s1 = payload m @ later"
    by (auto simp: s device_wire_def)
  have "?n - 0 \<le> length (outstanding s1)" "0 \<le> ?n" "?n \<le> length (body msg)"
    using data_size_le [of m] by (simp_all add: s1 len b MAX_MESSAGE_BODY_SIZE_def)
  from read_all_exact [OF this] obtain s2 where
    "read_all recv ?n 0 (body msg) s1 = Some (True, payload m @ drop ?n (body msg), s2)" "outstanding s2 = later"
    by (auto simp: s1 len)
  with hdr show ?thesis
    by (intro exI [of _ s2]) (simp add: read_msg_def sizeof_Header_def fw_message_def n Let_def)
qed

lemma read_msgs_wire:
  assumes "length (body msg) = MAX_MESSAGE_BODY_SIZE"
  shows "list_all DeviceMessage_wf ms \<Longrightarrow> outstanding s = concat (map device_wire ms) @ later \<Longrightarrow>
    \<exists>s'. read_msgs recv (length ms) s msg = Some (map (\<lambda>m. fw_message m (body msg)) ms, s') \<and> outstanding s' = later"
proof (induction ms arbitrary: s)
  case (Cons m ms)
  from Cons.prems have wf: "DeviceMessage_wf m" "list_all DeviceMessage_wf ms"
    and s: "outstanding s = device_wire m @ (concat (map device_wire ms) @ later)" by simp_all
  from read_msg_wire [OF wf(1) s assms] obtain s1 where
    r: "read_msg recv s msg = Some (True, fw_message m (body msg), s1)"
    and s1: "outstanding s1 = concat (map device_wire ms) @ later" by blast
  from Cons.IH [OF wf(2) s1] obtain s' where
    "read_msgs recv (length ms) s1 msg = Some (map (\<lambda>m. fw_message m (body msg)) ms, s')" "outstanding s' = later" by blast
  with r show ?case by simp
qed simp

end

section \<open>A socket that delivers the stream in pieces\<close>

fun chunk_recv :: "u8 list list recv_fn" where
  "chunk_recv [] n = None"
| "chunk_recv (c # cs) n =
     (if c = [] then chunk_recv cs n
      else Some (Received (take n c), if n < length c then drop n c # cs else cs))"

interpretation pieces: stream_socket chunk_recv concat
proof
  show "\<exists>bs s'. chunk_recv s n = Some (Received bs, s') \<and> bs \<noteq> [] \<and> length bs \<le> n \<and> concat s = bs @ concat s'"
    if "concat s \<noteq> []" "0 < n" for s n
    using that(1)
  proof (induction s)
    case (Cons c cs)
    show ?case
    proof (cases "c = []")
      case True
      with Cons show ?thesis by simp
    next
      case False
      with that(2) show ?thesis by (auto simp: append_take_drop_id)
    qed
  qed simp
qed

text \<open>The reader stays within its buffers, as long as \<open>recv\<close> stays within what it was asked for.\<close>

lemma read_all_length:
  assumes fits: "\<And>s n bs s'. recv s n = Some (Received bs, s') \<Longrightarrow> length bs \<le> n"
  shows "got \<le> sz \<Longrightarrow> sz \<le> length buf \<Longrightarrow> read_all recv sz got buf s = Some (ok, buf', s') \<Longrightarrow>
    length buf' = length buf"
proof (induction "sz - got" arbitrary: got buf s rule: less_induct)
  case less
  show ?case
  proof (cases "got < sz")
    case True
    from less.prems(3) True consider (Done) "buf' = buf" | (More) bs s1 where
      "recv s (sz - got) = Some (Received bs, s1)" "bs \<noteq> []"
      "read_all recv sz (got + length bs) (take got buf @ bs @ drop (got + length bs) buf) s1 = Some (ok, buf', s')"
      by (auto simp: read_all.simps [of _ sz got] split: option.splits recv_result.splits if_splits)
    then show ?thesis
    proof cases
      case More
      with fits have "length bs \<le> sz - got" by blast
      with less.hyps [OF _ _ _ More(3)] More(2) True less.prems show ?thesis by (simp add: diff_less_mono2)
    qed simp
  qed (use less.prems in \<open>simp add: read_all.simps [of _ sz]\<close>)
qed

lemma read_msg_length:
  assumes fits: "\<And>s n bs s'. recv s n = Some (Received bs, s') \<Longrightarrow> length bs \<le> n"
    and b: "length (body msg) = MAX_MESSAGE_BODY_SIZE" and r: "read_msg recv s msg = Some (ok, msg', s')"
  shows "length (body msg') = MAX_MESSAGE_BODY_SIZE"
proof -
  from r consider "body msg' = body msg"
    | l buf' s1 where "read_all recv (unat (l :: u8)) 0 (body msg) s1 = Some (ok, buf', s')" "body msg' = buf'"
    by (auto simp: read_msg_def Let_def split: option.splits if_splits)
  then show ?thesis
  proof cases
    case (2 l buf' s1)
    have "unat l \<le> length (body msg)" by (simp add: b MAX_MESSAGE_BODY_SIZE_def)
    from read_all_length [OF fits _ this 2(1)] 2(2) b show ?thesis by simp
  qed (simp add: b)
qed

end
