(* ===== verification/Fw_Status.thy ===== *)
theory Fw_Status
  imports Prelude
begin

text \<open>
  The status LED of the firmware (\<open>server/main/status.c\<close>, \<open>status.h\<close>) and the build options of
  \<open>server/main/config\<close> that the firmware's \<open>#ifdef\<close>s look at.

  Every colour has a value and the time in milliseconds it still has to shine; the task waits for a
  status message for at most the shortest such time, takes the time that has passed off all three, and
  then handles the message. The clock is an argument: how many ticks the wait took, and the macros
  that convert between ticks and milliseconds.
\<close>

section \<open>Build options\<close>

record kconfig =
  ESP_STATUS_LED_ENABLED :: bool
  ESP_STATUS_LED_BRIGHTNESS :: u32
  ESP_STATUS_LED_UART_ACTIVITY :: bool
  ESP_UART_ALLOW_HW_FLOW_CTRL :: bool
  ESP_UART_RESET_ENABLED :: bool
  ESP_UART_RESET_ACTIVE_LOW :: bool
  ESP_UART_RESET_DURATION_MS :: u32

text \<open>The ranges of the options, and the dependency of the activity option on the LED.\<close>

definition kconfig_ok :: "kconfig \<Rightarrow> bool" where
  "kconfig_ok K \<longleftrightarrow>
     1 \<le> ESP_STATUS_LED_BRIGHTNESS K \<and> ESP_STATUS_LED_BRIGHTNESS K \<le> 100 \<and>
     1 \<le> ESP_UART_RESET_DURATION_MS K \<and> ESP_UART_RESET_DURATION_MS K \<le> 5000 \<and>
     (ESP_STATUS_LED_UART_ACTIVITY K \<longrightarrow> ESP_STATUS_LED_ENABLED K)"

section \<open>Status messages\<close>

datatype StatusUpdateMessage =
    STATUS_WIFI_CONNECTING
  | STATUS_WIFI_CONNECTED
  | STATUS_WIFI_CONNECTION_FAILED
  | STATUS_WIFI_RETRIES_FAILED
  | STATUS_TCP_CLIENT_CONNECTED
  | STATUS_TCP_CLIENT_DISCONNECTED
  | STATUS_UART_SEND
  | STATUS_UART_RECV
  | STATUS_REMOTE_RESET
  | STATUS_TAILSCALE_CONNECTING
  | STATUS_TAILSCALE_CONNECTED
  | STATUS_TAILSCALE_FAILED

section \<open>The LED\<close>

record led =
  s_red_delay_ms :: u32
  s_green_delay_ms :: u32
  s_blue_delay_ms :: u32
  s_red_value :: u32
  s_green_value :: u32
  s_blue_value :: u32

definition led_init :: led where
  "led_init = \<lparr>s_red_delay_ms = 0, s_green_delay_ms = 0, s_blue_delay_ms = 0,
     s_red_value = 0, s_green_value = 0, s_blue_value = 0\<rparr>"

text \<open>What \<open>led_strip_set_pixel\<close> is called with.\<close>

definition update_color :: "kconfig \<Rightarrow> led \<Rightarrow> u32 \<times> u32 \<times> u32" where
  "update_color K l =
     ((s_red_value l * ESP_STATUS_LED_BRIGHTNESS K) div 100,
      (s_green_value l * ESP_STATUS_LED_BRIGHTNESS K) div 100,
      (s_blue_value l * ESP_STATUS_LED_BRIGHTNESS K) div 100)"

fun handle_queue_msg :: "kconfig \<Rightarrow> StatusUpdateMessage \<Rightarrow> led \<Rightarrow> led" where
  "handle_queue_msg K STATUS_WIFI_CONNECTING l =
     l\<lparr>s_red_value := 255, s_red_delay_ms := 250, s_green_value := 255, s_green_delay_ms := 250\<rparr>"
| "handle_queue_msg K STATUS_WIFI_CONNECTED l = l\<lparr>s_green_value := 255, s_green_delay_ms := 250\<rparr>"
| "handle_queue_msg K STATUS_WIFI_CONNECTION_FAILED l = l\<lparr>s_red_value := 255, s_red_delay_ms := 250\<rparr>"
| "handle_queue_msg K STATUS_WIFI_RETRIES_FAILED l = l\<lparr>s_red_value := 255, s_red_delay_ms := 3000\<rparr>"
| "handle_queue_msg K STATUS_TCP_CLIENT_CONNECTED l = l\<lparr>s_blue_value := 255, s_blue_delay_ms := 500\<rparr>"
| "handle_queue_msg K STATUS_TCP_CLIENT_DISCONNECTED l = l\<lparr>s_blue_value := 255, s_blue_delay_ms := 500\<rparr>"
| "handle_queue_msg K STATUS_UART_SEND l = l\<lparr>s_red_value := 255, s_red_delay_ms := 10\<rparr>"
| "handle_queue_msg K STATUS_UART_RECV l = l\<lparr>s_green_value := 255, s_green_delay_ms := 10\<rparr>"
| "handle_queue_msg K STATUS_REMOTE_RESET l =
     (if ESP_UART_RESET_ENABLED K
      then l\<lparr>s_red_value := 255, s_blue_value := 255, s_red_delay_ms := ESP_UART_RESET_DURATION_MS K,
             s_blue_delay_ms := ESP_UART_RESET_DURATION_MS K\<rparr>
      else l)"
| "handle_queue_msg K STATUS_TAILSCALE_CONNECTING l =
     l\<lparr>s_red_value := 0, s_green_value := 255, s_blue_value := 255, s_green_delay_ms := 500,
       s_blue_delay_ms := 500\<rparr>"
| "handle_queue_msg K STATUS_TAILSCALE_CONNECTED l =
     l\<lparr>s_red_value := 0, s_green_value := 255, s_blue_value := 255, s_green_delay_ms := 1500,
       s_blue_delay_ms := 1500\<rparr>"
| "handle_queue_msg K STATUS_TAILSCALE_FAILED l =
     l\<lparr>s_red_value := 255, s_green_value := 0, s_blue_value := 255, s_red_delay_ms := 3000,
       s_blue_delay_ms := 3000\<rparr>"

definition min_u32 :: "u32 \<Rightarrow> u32 \<Rightarrow> u32" where
  "min_u32 a b = (if a < b then a else b)"

definition update_delays :: "u32 \<Rightarrow> led \<Rightarrow> led" where
  "update_delays elapsed_ms l0 =
     (let l1 = l0\<lparr>s_red_delay_ms := s_red_delay_ms l0 - min_u32 elapsed_ms (s_red_delay_ms l0)\<rparr>;
          l2 = l1\<lparr>s_green_delay_ms := s_green_delay_ms l1 - min_u32 elapsed_ms (s_green_delay_ms l1)\<rparr>;
          l3 = l2\<lparr>s_blue_delay_ms := s_blue_delay_ms l2 - min_u32 elapsed_ms (s_blue_delay_ms l2)\<rparr>;
          l4 = (if s_red_delay_ms l3 = 0 then l3\<lparr>s_red_value := 0\<rparr> else l3);
          l5 = (if s_green_delay_ms l4 = 0 then l4\<lparr>s_green_value := 0\<rparr> else l4)
      in if s_blue_delay_ms l5 = 0 then l5\<lparr>s_blue_value := 0\<rparr> else l5)"

text \<open>The longest possible wait is \<open>portMAX_DELAY\<close>, which FreeRTOS takes as \<open>forever\<close>.\<close>

datatype queue_wait = MaxDelay | Ticks u32

definition calculate_queue_wait :: "(u32 \<Rightarrow> u32) \<Rightarrow> led \<Rightarrow> queue_wait" where
  "calculate_queue_wait pdMS_TO_TICKS l =
     (if s_red_delay_ms l = 0 \<and> s_green_delay_ms l = 0 \<and> s_blue_delay_ms l = 0 then MaxDelay
      else Ticks (pdMS_TO_TICKS
        (min_u32 (min_u32 (if s_red_delay_ms l \<noteq> 0 then s_red_delay_ms l else -1)
                          (if s_green_delay_ms l \<noteq> 0 then s_green_delay_ms l else -1))
                 (if s_blue_delay_ms l \<noteq> 0 then s_blue_delay_ms l else -1))))"

text \<open>One turn of the loop of \<open>status_led_task\<close>, given the ticks before and after the wait and what was
  received.\<close>

definition status_led_turn ::
  "kconfig \<Rightarrow> (u32 \<Rightarrow> u32) \<Rightarrow> u32 \<times> u32 \<times> StatusUpdateMessage option \<Rightarrow> led \<Rightarrow> led" where
  "status_led_turn K pdTICKS_TO_MS turn l =
     (case turn of (start_wait, end_wait, received) \<Rightarrow>
        (let elapsed_ms = pdTICKS_TO_MS (end_wait - start_wait);
             l1 = update_delays elapsed_ms l
         in case received of Some msg \<Rightarrow> handle_queue_msg K msg l1 | None \<Rightarrow> l1))"

definition status_led_task ::
  "kconfig \<Rightarrow> (u32 \<Rightarrow> u32) \<Rightarrow> (u32 \<times> u32 \<times> StatusUpdateMessage option) list \<Rightarrow> led" where
  "status_led_task K pdTICKS_TO_MS turns = fold (status_led_turn K pdTICKS_TO_MS) turns led_init"

section \<open>What the LED is meant to show\<close>

text \<open>
  The specification has a clock and, for each colour, the time at which it goes out. A status message
  makes some colours flash for a time, and switches some off.
\<close>

datatype colour = Red | Green | Blue

datatype change = Keep | Flash nat | Dark

fun flash :: "kconfig \<Rightarrow> StatusUpdateMessage \<Rightarrow> colour \<Rightarrow> change" where
  "flash K STATUS_WIFI_CONNECTING c = (if c = Blue then Keep else Flash 250)"
| "flash K STATUS_WIFI_CONNECTED c = (if c = Green then Flash 250 else Keep)"
| "flash K STATUS_WIFI_CONNECTION_FAILED c = (if c = Red then Flash 250 else Keep)"
| "flash K STATUS_WIFI_RETRIES_FAILED c = (if c = Red then Flash 3000 else Keep)"
| "flash K STATUS_TCP_CLIENT_CONNECTED c = (if c = Blue then Flash 500 else Keep)"
| "flash K STATUS_TCP_CLIENT_DISCONNECTED c = (if c = Blue then Flash 500 else Keep)"
| "flash K STATUS_UART_SEND c = (if c = Red then Flash 10 else Keep)"
| "flash K STATUS_UART_RECV c = (if c = Green then Flash 10 else Keep)"
| "flash K STATUS_REMOTE_RESET c =
     (if ESP_UART_RESET_ENABLED K \<and> c \<noteq> Green then Flash (unat (ESP_UART_RESET_DURATION_MS K)) else Keep)"
| "flash K STATUS_TAILSCALE_CONNECTING c = (if c = Red then Dark else Flash 500)"
| "flash K STATUS_TAILSCALE_CONNECTED c = (if c = Red then Dark else Flash 1500)"
| "flash K STATUS_TAILSCALE_FAILED c = (if c = Green then Dark else Flash 3000)"

record schedule =
  now :: nat
  until :: "colour \<Rightarrow> nat"
  switched :: "colour \<Rightarrow> bool"

definition schedule_init :: schedule where
  "schedule_init = \<lparr>now = 0, until = (\<lambda>_. 0), switched = (\<lambda>_. False)\<rparr>"

definition schedule_msg :: "kconfig \<Rightarrow> StatusUpdateMessage \<Rightarrow> schedule \<Rightarrow> schedule" where
  "schedule_msg K msg s =
     s\<lparr>until := (\<lambda>c. case flash K msg c of Flash d \<Rightarrow> now s + d | _ \<Rightarrow> until s c),
       switched := (\<lambda>c. case flash K msg c of Keep \<Rightarrow> switched s c | Flash d \<Rightarrow> True | Dark \<Rightarrow> False)\<rparr>"

definition schedule_turn ::
  "kconfig \<Rightarrow> (u32 \<Rightarrow> u32) \<Rightarrow> u32 \<times> u32 \<times> StatusUpdateMessage option \<Rightarrow> schedule \<Rightarrow> schedule" where
  "schedule_turn K pdTICKS_TO_MS turn s =
     (case turn of (start_wait, end_wait, received) \<Rightarrow>
        (let s1 = s\<lparr>now := now s + unat (pdTICKS_TO_MS (end_wait - start_wait))\<rparr>
         in case received of Some msg \<Rightarrow> schedule_msg K msg s1 | None \<Rightarrow> s1))"

text \<open>Whether a colour shines.\<close>

definition shines :: "schedule \<Rightarrow> colour \<Rightarrow> bool" where
  "shines s c \<longleftrightarrow> switched s c \<and> now s < until s c"

fun delay_of :: "colour \<Rightarrow> led \<Rightarrow> u32" where
  "delay_of Red l = s_red_delay_ms l"
| "delay_of Green l = s_green_delay_ms l"
| "delay_of Blue l = s_blue_delay_ms l"

fun value_of :: "colour \<Rightarrow> led \<Rightarrow> u32" where
  "value_of Red l = s_red_value l"
| "value_of Green l = s_green_value l"
| "value_of Blue l = s_blue_value l"

definition displays :: "schedule \<Rightarrow> led \<Rightarrow> bool" where
  "displays s l \<longleftrightarrow> (\<forall>c. unat (delay_of c l) = until s c - now s \<and>
      value_of c l = (if shines s c then 255 else 0))"

section \<open>Lemmas\<close>

lemma min_u32_sub: "unat (d - min_u32 e d) = unat d - unat e"
  by (auto simp: min_u32_def unat_sub word_less_nat_alt word_le_nat_alt)

lemma delay_of_update_delays: "delay_of c (update_delays e l) = delay_of c l - min_u32 e (delay_of c l)"
  by (cases c) (simp_all add: update_delays_def Let_def)

lemma value_of_update_delays:
  "value_of c (update_delays e l) = (if delay_of c (update_delays e l) = 0 then 0 else value_of c l)"
  by (cases c) (simp_all add: update_delays_def Let_def)

lemma delay_of_handle_queue_msg:
  "unat (delay_of c (handle_queue_msg K msg l))
     = (case flash K msg c of Flash d \<Rightarrow> d | _ \<Rightarrow> unat (delay_of c l))"
  by (cases msg; cases c) simp_all

lemma value_of_handle_queue_msg:
  "value_of c (handle_queue_msg K msg l)
     = (case flash K msg c of Keep \<Rightarrow> value_of c l | Flash d \<Rightarrow> 255 | Dark \<Rightarrow> 0)"
  by (cases msg; cases c) simp_all

lemma flash_pos: "kconfig_ok K \<Longrightarrow> flash K msg c = Flash d \<Longrightarrow> 0 < d \<and> d \<le> 5000"
  by (cases msg) (auto simp: kconfig_ok_def word_le_nat_alt split: if_splits)

lemma displays_init: "displays schedule_init led_init"
proof -
  have "delay_of c led_init = 0 \<and> value_of c led_init = 0" for c by (cases c) (simp_all add: led_init_def)
  then show ?thesis by (simp add: displays_def shines_def schedule_init_def)
qed

lemma displays_wait:
  assumes "displays s l"
  shows "displays (s\<lparr>now := now s + unat e\<rparr>) (update_delays e l)"
  unfolding displays_def
proof
  fix c
  from assms have d: "unat (delay_of c l) = until s c - now s" and v: "value_of c l = (if shines s c then 255 else 0)"
    by (simp_all add: displays_def)
  have d': "unat (delay_of c (update_delays e l)) = until s c - (now s + unat e)"
    by (simp add: delay_of_update_delays min_u32_sub d)
  moreover from d' have "delay_of c (update_delays e l) = 0 \<longleftrightarrow> until s c \<le> now s + unat e"
    by (metis diff_is_0_eq unat_eq_zero)
  ultimately show "unat (delay_of c (update_delays e l)) = until (s\<lparr>now := now s + unat e\<rparr>) c - now (s\<lparr>now := now s + unat e\<rparr>) \<and>
      value_of c (update_delays e l) = (if shines (s\<lparr>now := now s + unat e\<rparr>) c then 255 else 0)"
    by (auto simp: value_of_update_delays v shines_def)
qed

lemma displays_msg:
  assumes "kconfig_ok K" and "displays s l"
  shows "displays (schedule_msg K msg s) (handle_queue_msg K msg l)"
  unfolding displays_def
proof
  fix c
  have "unat (delay_of c l) = until s c - now s" "value_of c l = (if shines s c then 255 else 0)"
    using assms(2) by (simp_all add: displays_def)
  then show "unat (delay_of c (handle_queue_msg K msg l)) = until (schedule_msg K msg s) c - now (schedule_msg K msg s) \<and>
      value_of c (handle_queue_msg K msg l) = (if shines (schedule_msg K msg s) c then 255 else 0)"
    using flash_pos [OF assms(1), of msg c]
    by (auto simp: delay_of_handle_queue_msg value_of_handle_queue_msg schedule_msg_def shines_def split: change.split)
qed

lemma displays_turn:
  assumes "kconfig_ok K" and "displays s l"
  shows "displays (schedule_turn K P turn s) (status_led_turn K P turn l)"
  using displays_wait [OF assms(2)] displays_msg [OF assms(1)]
  by (auto simp: schedule_turn_def status_led_turn_def Let_def split: prod.split option.split)

lemma displays_turns:
  assumes "kconfig_ok K"
  shows "displays s l \<Longrightarrow> displays (fold (schedule_turn K P) turns s) (fold (status_led_turn K P) turns l)"
proof (induction turns arbitrary: s l)
  case (Cons t ts)
  from Cons.IH [OF displays_turn [OF assms Cons.prems]] show ?case by simp
qed simp

lemma until_turns:
  assumes "kconfig_ok K"
  shows "until s c \<le> now s + 5000 \<Longrightarrow>
    until (fold (schedule_turn K P) turns s) c \<le> now (fold (schedule_turn K P) turns s) + 5000"
proof (induction turns arbitrary: s)
  case (Cons t ts)
  have "until (schedule_turn K P t s) c \<le> now (schedule_turn K P t s) + 5000"
    using Cons.prems flash_pos [OF assms]
    by (auto simp: schedule_turn_def schedule_msg_def Let_def split: prod.split option.split change.split)
  from Cons.IH [OF this] show ?case by simp
qed simp

section \<open>Properties\<close>

definition demo_kconfig :: kconfig where
  "demo_kconfig = \<lparr>ESP_STATUS_LED_ENABLED = True, ESP_STATUS_LED_BRIGHTNESS = 20,
     ESP_STATUS_LED_UART_ACTIVITY = True, ESP_UART_ALLOW_HW_FLOW_CTRL = True, ESP_UART_RESET_ENABLED = True,
     ESP_UART_RESET_ACTIVE_LOW = True, ESP_UART_RESET_DURATION_MS = 100\<rparr>"

lemma demo_kconfig_ok: "kconfig_ok demo_kconfig"
  by (simp add: kconfig_ok_def demo_kconfig_def)

text \<open>The colour handed to the LED driver fits a byte, and the multiplication does not wrap.\<close>

lemma pixel_fits:
  assumes "kconfig_ok K" and "displays s l"
  shows "value_of c l * ESP_STATUS_LED_BRIGHTNESS K div 100 \<le> 255"
proof -
  from assms(1) have b: "unat (ESP_STATUS_LED_BRIGHTNESS K) \<le> 100" by (simp add: kconfig_ok_def word_le_nat_alt)
  then have "unat (255 * ESP_STATUS_LED_BRIGHTNESS K) = 255 * unat (ESP_STATUS_LED_BRIGHTNESS K)"
    by (subst unat_mult_lem [THEN iffD1]) simp_all
  with b have "(255 * ESP_STATUS_LED_BRIGHTNESS K) div 100 \<le> 255" by (simp add: word_le_nat_alt unat_div)
  moreover have "value_of c l = 255 \<or> value_of c l = 0" using assms(2) by (simp add: displays_def)
  ultimately show ?thesis by auto
qed



text \<open>
  The LED task sleeps without a limit exactly when all colours are off, and otherwise for the shortest
  time any colour still has.
\<close>

lemma queue_wait_max: "calculate_queue_wait P l = MaxDelay \<longleftrightarrow> (\<forall>c. delay_of c l = 0)"
proof -
  have "(\<forall>c. delay_of c l = 0) \<longleftrightarrow> delay_of Red l = 0 \<and> delay_of Green l = 0 \<and> delay_of Blue l = 0"
    by (metis colour.exhaust)
  then show ?thesis by (simp add: calculate_queue_wait_def)
qed

lemma min_u32_min: "min_u32 a b = min a b"
  by (auto simp: min_u32_def min_def)

lemma queue_wait_ticks:
  assumes "calculate_queue_wait P l = Ticks t"
  shows "\<exists>c. delay_of c l \<noteq> 0 \<and> t = P (delay_of c l) \<and> (\<forall>c'. delay_of c' l \<noteq> 0 \<longrightarrow> delay_of c l \<le> delay_of c' l)"
proof -
  define m where "m = min_u32 (min_u32 (if s_red_delay_ms l \<noteq> 0 then s_red_delay_ms l else -1)
     (if s_green_delay_ms l \<noteq> 0 then s_green_delay_ms l else -1)) (if s_blue_delay_ms l \<noteq> 0 then s_blue_delay_ms l else -1)"
  have t: "t = P m" and some: "\<exists>c. delay_of c l \<noteq> 0"
    using assms queue_wait_max [of P l] by (auto simp: calculate_queue_wait_def m_def split: if_splits)
  have least: "m \<le> delay_of c l" if "delay_of c l \<noteq> 0" for c
    using that by (cases c) (auto simp: m_def min_u32_min min_le_iff_disj)
  have hit: "\<exists>c. delay_of c l \<noteq> 0 \<and> d = delay_of c l"
    if "d \<noteq> 0" "d = s_red_delay_ms l \<or> d = s_green_delay_ms l \<or> d = s_blue_delay_ms l" for d
    using that by (metis delay_of.simps)
  have "m = -1 \<or> m \<noteq> 0 \<and> (m = s_red_delay_ms l \<or> m = s_green_delay_ms l \<or> m = s_blue_delay_ms l)"
    by (auto simp: m_def min_u32_min min_def)
  with hit have "m = -1 \<or> (\<exists>c. delay_of c l \<noteq> 0 \<and> m = delay_of c l)" by blast
  moreover have "\<exists>c. delay_of c l \<noteq> 0 \<and> m = delay_of c l" if "m = -1"
    using some least that by (metis word_order.extremum_unique)
  ultimately show ?thesis using t least by metis
qed

text \<open>
  Where a tick is longer than what is left of a flash the wait is rounded to no ticks at all, and the
  task polls its queue without sleeping. With 100 ticks in a second, the default, this happens after
  a reset pulse of 105 milliseconds: 5 of them are left after ten ticks, the next wait is zero, and a
  turn in which no tick falls into the wait changes nothing.
\<close>

lemma status_led_polls:
  assumes "K = demo_kconfig\<lparr>ESP_UART_RESET_DURATION_MS := 105\<rparr>"
    and "l = status_led_task K (\<lambda>t. t * 10) [(0, 0, Some STATUS_REMOTE_RESET), (0, 10, None)]"
  shows "delay_of Red l = 5 \<and> calculate_queue_wait (\<lambda>ms. ms * 100 div 1000) l = Ticks 0 \<and>
    status_led_turn K (\<lambda>t. t * 10) (t, t, None) l = l"
  by (simp add: assms status_led_task_def status_led_turn_def Let_def demo_kconfig_def led_init_def update_delays_def
      min_u32_def calculate_queue_wait_def)

end
