(* ===== verification/Fw_Uart.thy ===== *)
theory Fw_Uart
  imports Fw_Message Fw_Status
begin

text \<open>
  The UART tasks of the firmware (\<open>server/main/uart.c\<close>): what \<open>uart_tx_task\<close> does for one message, with
  \<open>apply_config\<close> and \<open>handle_control\<close>, and the messages \<open>uart_rx_task\<close> makes of received bytes.

  The calls into the UART and GPIO drivers and the status messages are listed in order. The drivers are an argument: whether a call succeeds. A failure under
  \<open>ESP_ERROR_CHECK\<close> aborts the program, and the firmware restarts.
\<close>

section \<open>Driver calls\<close>

datatype uart_word_length = UART_DATA_5_BITS | UART_DATA_6_BITS | UART_DATA_7_BITS | UART_DATA_8_BITS
datatype uart_stop_bits = UART_STOP_BITS_1 | UART_STOP_BITS_2
datatype uart_parity = UART_PARITY_DISABLE | UART_PARITY_ODD | UART_PARITY_EVEN
datatype uart_flow = UART_HW_FLOWCTRL_DISABLE | UART_HW_FLOWCTRL_CTS_RTS

datatype uart_call =
    uart_set_baudrate u32
  | uart_set_word_length uart_word_length
  | uart_set_stop_bits uart_stop_bits
  | uart_set_parity uart_parity
  | uart_set_hw_flow_ctrl uart_flow u8
  | uart_write_bytes "u8 list"
  | gpio_set_level bool
  | vTaskDelay_ms u32
  | send_status StatusUpdateMessage

type_synonym driver = "uart_call \<Rightarrow> bool"

text \<open>A sequence of calls under \<open>ESP_ERROR_CHECK\<close>: the calls made, and whether the program goes on.\<close>

fun checked :: "('c \<Rightarrow> bool) \<Rightarrow> 'c list \<Rightarrow> 'c list \<times> bool" where
  "checked D [] = ([], True)"
| "checked D (c # cs) = (if D c then (case checked D cs of (made, ok) \<Rightarrow> (c # made, ok)) else ([c], False))"

section \<open>Configuration\<close>

record ConfigMessage =
  cm_baud_rate :: "u8 list" \<comment> \<open>the four bytes of the field, as they are in memory\<close>
  cm_data_bits :: u8
  cm_stop_bits :: u8
  cm_parity :: u8
  cm_hw_flow_ctl :: u8

definition sizeof_ConfigMessage :: nat where
  "sizeof_ConfigMessage = 8"

definition sizeof_ControlMessage :: nat where
  "sizeof_ControlMessage = 1"

definition sizeof_ResponseMessage :: nat where
  "sizeof_ResponseMessage = 1"

text \<open>The cast \<open>(ConfigMessage*) msg.body\<close>.\<close>

definition ConfigMessage_of :: "u8 list \<Rightarrow> ConfigMessage" where
  "ConfigMessage_of bd = \<lparr>cm_baud_rate = take 4 bd, cm_data_bits = bd ! 4, cm_stop_bits = bd ! 5,
     cm_parity = bd ! 6, cm_hw_flow_ctl = bd ! 7\<rparr>"

definition ntohl :: "u8 list \<Rightarrow> u32" where
  "ntohl bs = of_be32 (bs ! 0) (bs ! 1) (bs ! 2) (bs ! 3)"

definition config_calls :: "kconfig \<Rightarrow> ConfigMessage \<Rightarrow> uart_call list" where
  "config_calls K config =
     [uart_set_baudrate (ntohl (cm_baud_rate config))] @
     (if cm_data_bits config = 5 then [uart_set_word_length UART_DATA_5_BITS]
      else if cm_data_bits config = 6 then [uart_set_word_length UART_DATA_6_BITS]
      else if cm_data_bits config = 7 then [uart_set_word_length UART_DATA_7_BITS]
      else if cm_data_bits config = 8 then [uart_set_word_length UART_DATA_8_BITS]
      else []) @
     (if cm_stop_bits config = 1 then [uart_set_stop_bits UART_STOP_BITS_1]
      else if cm_stop_bits config = 2 then [uart_set_stop_bits UART_STOP_BITS_2]
      else []) @
     (if cm_parity config = 0 then [uart_set_parity UART_PARITY_DISABLE]
      else if cm_parity config = 1 then [uart_set_parity UART_PARITY_ODD]
      else if cm_parity config = 2 then [uart_set_parity UART_PARITY_EVEN]
      else []) @
     (if ESP_UART_ALLOW_HW_FLOW_CTRL K
      then (if cm_hw_flow_ctl config \<noteq> 0 then [uart_set_hw_flow_ctrl UART_HW_FLOWCTRL_CTS_RTS 120]
            else [uart_set_hw_flow_ctrl UART_HW_FLOWCTRL_DISABLE 120])
      else [])"

definition apply_config :: "kconfig \<Rightarrow> driver \<Rightarrow> ConfigMessage \<Rightarrow> uart_call list \<times> bool" where
  "apply_config K D config = checked D (config_calls K config)"

section \<open>Control commands\<close>

definition CONTROL_CMD_RESET :: u8 where
  "CONTROL_CMD_RESET = 1"

definition RESPONSE_STATUS_OK :: u8 where
  "RESPONSE_STATUS_OK = 1"

definition RESPONSE_STATUS_NOT_SUPPORTED :: u8 where
  "RESPONSE_STATUS_NOT_SUPPORTED = 2"

text \<open>The pin levels: \<open>True\<close> is high.\<close>

definition RESET_ACTIVE_LEVEL :: "kconfig \<Rightarrow> bool" where
  "RESET_ACTIVE_LEVEL K \<longleftrightarrow> \<not> ESP_UART_RESET_ACTIVE_LOW K"

definition RESET_INACTIVE_LEVEL :: "kconfig \<Rightarrow> bool" where
  "RESET_INACTIVE_LEVEL K \<longleftrightarrow> \<not> RESET_ACTIVE_LEVEL K"

text \<open>
  The response is built in a local \<open>Message\<close> with arbitrary contents \<open>old\<close>. Handing it to the queue is
  left to the caller, since the task may wait there.
\<close>

definition handle_control :: "kconfig \<Rightarrow> Message \<Rightarrow> u8 \<Rightarrow> uart_call list \<times> Message" where
  "handle_control K old command =
     (let resp_msg = old\<lparr>hdr_kind := MESSAGE_KIND_RESPONSE, hdr_len := of_nat sizeof_ResponseMessage\<rparr>;
          respond = (\<lambda>status. resp_msg\<lparr>body := (body resp_msg)[0 := status]\<rparr>)
      in if command = CONTROL_CMD_RESET then
           (if ESP_UART_RESET_ENABLED K then
              ((if ESP_STATUS_LED_ENABLED K then [send_status STATUS_REMOTE_RESET] else []) @
               [gpio_set_level (RESET_ACTIVE_LEVEL K), vTaskDelay_ms (ESP_UART_RESET_DURATION_MS K),
                gpio_set_level (RESET_INACTIVE_LEVEL K)],
               respond RESPONSE_STATUS_OK)
            else ([], respond RESPONSE_STATUS_NOT_SUPPORTED))
         else ([], respond RESPONSE_STATUS_NOT_SUPPORTED))"

section \<open>One message of the transmit task\<close>

text \<open>
  The body of the loop of \<open>uart_tx_task\<close> for a message taken from the queue: the calls, whether the program
  goes on, and the response to hand to the queue, if any.
\<close>

definition uart_tx_turn :: "kconfig \<Rightarrow> driver \<Rightarrow> Message \<Rightarrow> Message \<Rightarrow> (uart_call list \<times> bool) \<times> Message option" where
  "uart_tx_turn K D old msg =
     (if hdr_kind msg = MESSAGE_KIND_DATA then
        ((uart_write_bytes (take (unat (hdr_len msg)) (body msg)) #
           (if ESP_STATUS_LED_UART_ACTIVITY K then [send_status STATUS_UART_SEND] else []), True), None)
      else if hdr_kind msg = MESSAGE_KIND_CONFIG then
        (if unat (hdr_len msg) \<noteq> sizeof_ConfigMessage then (([], True), None)
         else (apply_config K D (ConfigMessage_of (body msg)), None))
      else if hdr_kind msg = MESSAGE_KIND_CONTROL then
        (if unat (hdr_len msg) \<noteq> sizeof_ControlMessage then (([], True), None)
         else (case handle_control K old (body msg ! 0) of (calls, resp) \<Rightarrow> ((calls, True), Some resp)))
      else (([], True), None))"

section \<open>One message of the receive task\<close>

text \<open>
  The inner loop of \<open>uart_rx_task\<close>, from the driver's receive buffer: the size of the next read, and
  the message it makes of the bytes read.
\<close>

definition to_read :: "nat \<Rightarrow> nat" where
  "to_read buffered_len = (if buffered_len > MAX_MESSAGE_BODY_SIZE then MAX_MESSAGE_BODY_SIZE else buffered_len)"

definition rx_message :: "Message \<Rightarrow> u8 list \<Rightarrow> Message" where
  "rx_message old bs =
     \<lparr>hdr_kind = MESSAGE_KIND_DATA, hdr_len = of_nat (length bs), body = bs @ drop (length bs) (body old)\<rparr>"

section \<open>What the device has to do for a message\<close>

text \<open>
  The state of the serial line as the calls leave it: the line settings, the bytes written, the level
  of the reset pin and for how many milliseconds it has been active.
\<close>

record line =
  ln_baud :: u32
  ln_bits :: nat
  ln_stop :: nat
  ln_parity :: uart_parity
  ln_flow :: uart_flow
  ln_out :: "u8 list"
  ln_pin :: bool
  ln_active_ms :: nat

fun bits_of :: "uart_word_length \<Rightarrow> nat" where
  "bits_of UART_DATA_5_BITS = 5"
| "bits_of UART_DATA_6_BITS = 6"
| "bits_of UART_DATA_7_BITS = 7"
| "bits_of UART_DATA_8_BITS = 8"

fun stops_of :: "uart_stop_bits \<Rightarrow> nat" where
  "stops_of UART_STOP_BITS_1 = 1"
| "stops_of UART_STOP_BITS_2 = 2"

fun line_call :: "kconfig \<Rightarrow> uart_call \<Rightarrow> line \<Rightarrow> line" where
  "line_call K (uart_set_baudrate b) l = l\<lparr>ln_baud := b\<rparr>"
| "line_call K (uart_set_word_length w) l = l\<lparr>ln_bits := bits_of w\<rparr>"
| "line_call K (uart_set_stop_bits n) l = l\<lparr>ln_stop := stops_of n\<rparr>"
| "line_call K (uart_set_parity p) l = l\<lparr>ln_parity := p\<rparr>"
| "line_call K (uart_set_hw_flow_ctrl f _) l = l\<lparr>ln_flow := f\<rparr>"
| "line_call K (uart_write_bytes bs) l = l\<lparr>ln_out := ln_out l @ bs\<rparr>"
| "line_call K (gpio_set_level v) l = l\<lparr>ln_pin := v\<rparr>"
| "line_call K (vTaskDelay_ms d) l =
     l\<lparr>ln_active_ms := ln_active_ms l + (if ln_pin l = RESET_ACTIVE_LEVEL K then unat d else 0)\<rparr>"
| "line_call K (send_status _) l = l"

definition line_calls :: "kconfig \<Rightarrow> uart_call list \<Rightarrow> line \<Rightarrow> line" where
  "line_calls K = fold (line_call K)"

text \<open>The meaning of a message of the daemon: what it does to the line, and the answer to it.\<close>

fun line_message :: "kconfig \<Rightarrow> DeviceMessage \<Rightarrow> line \<Rightarrow> line" where
  "line_message K (Data n arr) l = l\<lparr>ln_out := ln_out l @ take (unat n) arr\<rparr>"
| "line_message K (Config baud bits stop par hw) l =
     l\<lparr>ln_baud := baud,
       ln_bits := (if 5 \<le> bits \<and> bits \<le> 8 then unat bits else ln_bits l),
       ln_stop := (if 1 \<le> stop \<and> stop \<le> 2 then unat stop else ln_stop l),
       ln_parity := (if par = 0 then UART_PARITY_DISABLE else if par = 1 then UART_PARITY_ODD
                     else if par = 2 then UART_PARITY_EVEN else ln_parity l),
       ln_flow := (if \<not> ESP_UART_ALLOW_HW_FLOW_CTRL K then ln_flow l
                   else if hw then UART_HW_FLOWCTRL_CTS_RTS else UART_HW_FLOWCTRL_DISABLE)\<rparr>"
| "line_message K (ControlReq CtlReset) l =
     (if ESP_UART_RESET_ENABLED K
      then l\<lparr>ln_pin := RESET_INACTIVE_LEVEL K,
             ln_active_ms := ln_active_ms l + unat (ESP_UART_RESET_DURATION_MS K)\<rparr>
      else l)"
| "line_message K (ControlRes _) l = l"

fun answer_to :: "kconfig \<Rightarrow> DeviceMessage \<Rightarrow> DeviceMessage option" where
  "answer_to K (ControlReq CtlReset) =
     Some (ControlRes (if ESP_UART_RESET_ENABLED K then CtlOk else CtlNotSupported))"
| "answer_to K _ = None"

text \<open>The bytes of a message that \<open>handle_client\<close> sends: the header, then \<open>len\<close> bytes of the body.\<close>

definition fw_wire :: "Message \<Rightarrow> u8 list" where
  "fw_wire msg = [hdr_kind msg, hdr_len msg] @ take (unat (hdr_len msg)) (body msg)"

section \<open>Lemmas\<close>

lemmas fw_defs = MESSAGE_KIND_DATA_def MESSAGE_KIND_CONFIG_def MESSAGE_KIND_CONTROL_def MESSAGE_KIND_RESPONSE_def
  MAX_MESSAGE_BODY_SIZE_def sizeof_ConfigMessage_def sizeof_ControlMessage_def sizeof_ResponseMessage_def
  CONTROL_CMD_RESET_def RESPONSE_STATUS_OK_def RESPONSE_STATUS_NOT_SUPPORTED_def

lemma checked_ok: "snd (checked D cs) \<Longrightarrow> fst (checked D cs) = cs"
  by (induction cs) (auto split: prod.splits if_splits)

lemma checked_refused: "\<not> snd (checked D cs) \<Longrightarrow> \<exists>pre c post. cs = pre @ c # post \<and> fst (checked D cs) = pre @ [c] \<and> \<not> D c"
proof (induction cs)
  case (Cons c cs)
  show ?case
  proof (cases "D c")
    case True
    with Cons obtain pre c' post where "cs = pre @ c' # post" "fst (checked D cs) = pre @ [c']" "\<not> D c'"
      by (auto split: prod.splits)
    with True show ?thesis by (intro exI [of _ "c # pre"] exI [of _ c'] exI [of _ post]) (auto split: prod.split)
  qed (auto intro!: exI [of _ "[]"])
qed simp

lemma fw_message_Cons:
  "old \<noteq> [] \<Longrightarrow> fw_message (ControlRes r) old
     = \<lparr>hdr_kind = 4, hdr_len = 1, body = old[0 := DeviceControlResponse_as_u8 r]\<rparr>"
  by (cases old) (simp_all add: fw_message_def)

lemma ConfigMessage_of_payload:
  "ConfigMessage_of (payload (Config baud bits stop par hw) @ pad) =
     \<lparr>cm_baud_rate = be32 baud, cm_data_bits = bits, cm_stop_bits = stop, cm_parity = par, cm_hw_flow_ctl = of_bool hw\<rparr>"
  by (simp add: ConfigMessage_of_def be32_def)

lemma ntohl_be32 [simp]: "ntohl (be32 v) = v"
  by (simp add: ntohl_def be32_def)

lemma u8_5_to_8: "(5::u8) \<le> b \<and> b \<le> 8 \<longleftrightarrow> b = 5 \<or> b = 6 \<or> b = 7 \<or> b = 8"
  by (auto simp: word_le_nat_alt word_unat_eq_iff)

lemma u8_1_to_2: "(1::u8) \<le> b \<and> b \<le> 2 \<longleftrightarrow> b = 1 \<or> b = 2"
  by (auto simp: word_le_nat_alt word_unat_eq_iff)

text \<open>Applying a configuration sets the line as the message says.\<close>

lemma config_calls_line:
  "line_calls K (config_calls K (ConfigMessage_of (payload (Config baud bits stop par hw) @ pad))) l
     = line_message K (Config baud bits stop par hw) l"
  by (simp add: ConfigMessage_of_payload config_calls_def line_calls_def u8_5_to_8 u8_1_to_2 del: payload.simps)

lemma fw_wire_fw_message: "DeviceMessage_wf m \<Longrightarrow> fw_wire (fw_message m old) = device_wire m"
  using length_payload [of m] data_size_le [of m] by (simp add: fw_wire_def fw_message_def device_wire_def)

lemma rx_message_Data:
  assumes "length bs \<le> MAX_MESSAGE_BODY_SIZE" and "length (body old) = MAX_MESSAGE_BODY_SIZE"
  shows "rx_message old bs = fw_message (Data (of_nat (length bs)) (body (rx_message old bs))) (body old)"
    and "DeviceMessage_wf (Data (of_nat (length bs)) (body (rx_message old bs)))"
  using assms by (simp_all add: rx_message_def fw_message_def fw_defs MAX_MESSAGE_LEN_def)

lemma uart_tx_meaning:
  assumes "DeviceMessage_wf m" and "length buf = MAX_MESSAGE_BODY_SIZE" and "length (body old) = MAX_MESSAGE_BODY_SIZE"
  shows "case uart_tx_turn K D old (fw_message m buf) of ((calls, ok), resp) \<Rightarrow>
    (if ok then line_calls K calls l = line_message K m l else \<not> D (last calls)) \<and>
    resp = map_option (\<lambda>r. fw_message r (body old)) (answer_to K m)"
proof (cases m)
  case (Data n arr)
  with assms show ?thesis
    by (simp add: uart_tx_turn_def fw_message_def fw_defs line_calls_def MAX_MESSAGE_LEN_def)
next
  case (Config baud bits stop par hw)
  let ?calls = "config_calls K (ConfigMessage_of (payload m @ drop 8 buf))"
  have t: "uart_tx_turn K D old (fw_message m buf) = (checked D ?calls, None)"
    using Config by (simp add: uart_tx_turn_def fw_message_def fw_defs apply_config_def)
  have line: "line_calls K ?calls l = line_message K m l" and "answer_to K m = None"
    using config_calls_line [of K baud bits stop par hw "drop 8 buf" l] Config by simp_all
  moreover obtain made ok where c: "checked D ?calls = (made, ok)" by fastforce
  moreover have "made = ?calls" if ok using checked_ok [of D ?calls] that c by simp
  moreover have "\<not> D (last made)" if "\<not> ok" using checked_refused [of D ?calls] that c by auto
  ultimately show ?thesis by (auto simp: t)
next
  case (ControlReq r)
  have b: "body old \<noteq> []" using assms(3) by (auto simp: fw_defs)
  show ?thesis
    by (cases r) (simp add: ControlReq uart_tx_turn_def fw_message_def handle_control_def fw_defs line_calls_def Let_def
        RESET_INACTIVE_LEVEL_def fw_message_Cons [OF b, unfolded fw_message_def, simplified])
next
  case (ControlRes r)
  then show ?thesis by (simp add: uart_tx_turn_def fw_message_def fw_defs line_calls_def)
qed

section \<open>Properties\<close>


definition demo_line :: line where
  "demo_line = \<lparr>ln_baud = 115200, ln_bits = 8, ln_stop = 1, ln_parity = UART_PARITY_DISABLE,
     ln_flow = UART_HW_FLOWCTRL_DISABLE, ln_out = [], ln_pin = True, ln_active_ms = 0\<rparr>"

definition demo_buffer :: Message where
  "demo_buffer = \<lparr>hdr_kind = 7, hdr_len = 9, body = replicate 255 3\<rparr>"


text \<open>
  Messages the firmware does not understand change nothing and are not answered: other kinds, and
  configurations and requests of the wrong length. The daemon's decoder, in contrast, does not look at the
  length of a configuration.
\<close>

lemma uart_tx_ignores:
  assumes "hdr_kind msg \<notin> {MESSAGE_KIND_DATA, MESSAGE_KIND_CONFIG, MESSAGE_KIND_CONTROL} \<or>
    hdr_kind msg = MESSAGE_KIND_CONFIG \<and> unat (hdr_len msg) \<noteq> 8 \<or>
    hdr_kind msg = MESSAGE_KIND_CONTROL \<and> unat (hdr_len msg) \<noteq> 1"
  shows "uart_tx_turn K D old msg = (([], True), None)"
  using assms by (auto simp: uart_tx_turn_def fw_defs)

end
