(* ===== verification/Fw_System.thy ===== *)
theory Fw_System
  imports Fw_Uart
begin

text \<open>
  The firmware as a system (\<open>server/main/tcp.c\<close>, \<open>uart.c\<close>, \<open>main.c\<close>): the TCP task, the two UART tasks, the two message
  queues and the event descriptor between them, and the queue of status messages.

  A task is a program counter at the points where it can wait or be overtaken by another task; an
  action is one task going on from there, with the outcome of the system calls it makes. An action
  that is not possible (a queue that is full or empty, a descriptor that is not ready) gives \<open>None\<close>: the
  task waits. So a list of actions is an interleaving of the tasks with the client and the UART. Buffers
  on the stack have arbitrary contents, which come with the action.

  The drivers (\<open>D\<close>), the build options (\<open>K\<close>) and the number of client sockets the network stack has (\<open>N\<close>)
  are arguments.
\<close>

section \<open>State\<close>

datatype tcp_pc =
    Accepting \<comment> \<open>in \<open>accept\<close>\<close>
  | Selecting \<comment> \<open>in \<open>select\<close>, with a client\<close>
  | Reading bool \<comment> \<open>in \<open>read_msg\<close>; whether the event descriptor is ready, too\<close>
  | Forwarding Message bool \<comment> \<open>in \<open>xQueueSend\<close> to the UART queue\<close>
  | ReadingEfd \<comment> \<open>before \<open>read\<close> of the event descriptor\<close>
  | Draining \<comment> \<open>in the loop that sends queued messages to the client\<close>

datatype tx_pc = TxWaiting | TxResponding Message | TxSignalling

datatype rx_pc = RxWaiting | RxLooping | RxSending Message | RxSignalling

datatype uart_event = UART_DATA | UART_OTHER

record fw =
  tcp_at :: tcp_pc
  tx_at :: tx_pc
  rx_at :: rx_pc
  tcp_to_uart_queue :: "Message list"
  uart_to_tcp_queue :: "Message list"
  uart_to_tcp_efd :: nat
  status_update_queue :: "StatusUpdateMessage list"
  uart_event_queue :: "uart_event list"
  rx_buffer :: "u8 list" \<comment> \<open>the UART driver's receive buffer\<close>
  sockets :: nat \<comment> \<open>client sockets that are open\<close>
  aborted :: bool
  \<comment> \<open>histories: bytes received, messages read from clients, messages taken
      by the transmit task, its calls, messages taken from the queue to the client, how many of them before this
      client, bytes this client was sent, whether sending has failed, sockets that nobody will close\<close>
  h_arrived :: "u8 list"
  h_read :: "Message list"
  h_taken :: "Message list"
  h_calls :: "uart_call list"
  h_popped :: "Message list"
  h_base :: nat
  h_sent :: "u8 list"
  h_send_failed :: bool
  h_leaked :: nat

definition TCP_TO_UART_DEPTH :: nat where
  "TCP_TO_UART_DEPTH = 16"

definition UART_TO_TCP_DEPTH :: nat where
  "UART_TO_TCP_DEPTH = 128"

definition STATUS_DEPTH :: nat where
  "STATUS_DEPTH = 2"

definition UART_EVENT_QUEUE_SIZE :: nat where
  "UART_EVENT_QUEUE_SIZE = 16"

definition UART_RX_BUFFER :: nat where
  "UART_RX_BUFFER = 1024"

text \<open>\<open>state_init\<close>, and the tasks at the start of their loops.\<close>

definition fw_init :: fw where
  "fw_init = \<lparr>tcp_at = Accepting, tx_at = TxWaiting, rx_at = RxWaiting, tcp_to_uart_queue = [], uart_to_tcp_queue = [],
     uart_to_tcp_efd = 0, status_update_queue = [], uart_event_queue = [], rx_buffer = [], sockets = 0,
     aborted = False, h_arrived = [], h_read = [], h_taken = [], h_calls = [], h_popped = [], h_base = 0,
     h_sent = [], h_send_failed = False, h_leaked = 0\<rparr>"

section \<open>Steps\<close>

datatype send_outcome = SendOk | SendHeaderFailed | SendBodyFailed

datatype fw_act =
    AcceptOk
  | AcceptFailed
  | SelectFailed
  | Select bool \<comment> \<open>whether the client socket is ready\<close>
  | ReadMsg Message
  | ReadFailed
  | Forward
  | ReadEfd
  | Drain send_outcome
  | TxTake Message \<comment> \<open>with the old contents of the response buffer\<close>
  | TxSend
  | TxSignal
  | Arrive "u8 list" \<comment> \<open>bytes reach the UART driver\<close>
  | UartEvent uart_event \<comment> \<open>the UART driver posts an event\<close>
  | RxEvent
  | RxRead Message nat \<comment> \<open>with the old contents of the buffer and the number of bytes read\<close>
  | RxSend
  | RxSignal
  | StatusTake

definition Message_ok :: "Message \<Rightarrow> bool" where
  "Message_ok m \<longleftrightarrow> length (body m) = MAX_MESSAGE_BODY_SIZE"

text \<open>\<open>xQueueSend(status_update_queue, &msg, 0)\<close>: the message is dropped when the queue is full.\<close>

definition push_status :: "StatusUpdateMessage \<Rightarrow> fw \<Rightarrow> fw" where
  "push_status m s =
     (if length (status_update_queue s) < STATUS_DEPTH
      then s\<lparr>status_update_queue := status_update_queue s @ [m]\<rparr> else s)"

fun call_status :: "uart_call \<Rightarrow> fw \<Rightarrow> fw" where
  "call_status (send_status m) s = push_status m s"
| "call_status _ s = s"

definition led_status :: "kconfig \<Rightarrow> StatusUpdateMessage \<Rightarrow> fw \<Rightarrow> fw" where
  "led_status K m s = (if ESP_STATUS_LED_ENABLED K then push_status m s else s)"

text \<open>\<open>break\<close> out of the loop of \<open>handle_client\<close>: the function ends, and the socket stays open.\<close>

definition leave_open :: "kconfig \<Rightarrow> fw \<Rightarrow> fw" where
  "leave_open K s = led_status K STATUS_TCP_CLIENT_DISCONNECTED (s\<lparr>tcp_at := Accepting, h_leaked := Suc (h_leaked s)\<rparr>)"

text \<open>\<open>close(client_sock); return;\<close>\<close>

definition leave_closed :: "kconfig \<Rightarrow> fw \<Rightarrow> fw" where
  "leave_closed K s =
     led_status K STATUS_TCP_CLIENT_DISCONNECTED (s\<lparr>tcp_at := Accepting, sockets := sockets s - 1, h_send_failed := True\<rparr>)"

definition after_client :: "bool \<Rightarrow> tcp_pc" where
  "after_client efd_ready = (if efd_ready then ReadingEfd else Selecting)"

fun tcp_act :: "kconfig \<Rightarrow> nat \<Rightarrow> fw_act \<Rightarrow> fw \<Rightarrow> fw option" where
  "tcp_act K N AcceptOk s =
     (if tcp_at s = Accepting \<and> sockets s < N
      then Some (led_status K STATUS_TCP_CLIENT_CONNECTED
             (s\<lparr>tcp_at := Selecting, sockets := Suc (sockets s), h_base := length (h_popped s), h_sent := []\<rparr>))
      else None)"
| "tcp_act K N AcceptFailed s = (if tcp_at s = Accepting then Some s else None)"
| "tcp_act K N SelectFailed s = (if tcp_at s = Selecting then Some (leave_open K s) else None)"
| "tcp_act K N (Select client) s =
     (let efd_ready = (0 < uart_to_tcp_efd s)
      in if tcp_at s = Selecting \<and> (client \<or> efd_ready)
         then Some (s\<lparr>tcp_at := (if client then Reading efd_ready else ReadingEfd)\<rparr>)
         else None)"
| "tcp_act K N (ReadMsg m) s =
     (case tcp_at s of
        Reading efd_ready \<Rightarrow>
          if Message_ok m then Some (s\<lparr>tcp_at := Forwarding m efd_ready, h_read := h_read s @ [m]\<rparr>) else None
      | _ \<Rightarrow> None)"
| "tcp_act K N ReadFailed s = (case tcp_at s of Reading _ \<Rightarrow> Some (leave_open K s) | _ \<Rightarrow> None)"
| "tcp_act K N Forward s =
     (case tcp_at s of
        Forwarding m efd_ready \<Rightarrow>
          if length (tcp_to_uart_queue s) < TCP_TO_UART_DEPTH
          then Some (s\<lparr>tcp_at := after_client efd_ready, tcp_to_uart_queue := tcp_to_uart_queue s @ [m]\<rparr>)
          else None
      | _ \<Rightarrow> None)"
| "tcp_act K N ReadEfd s =
     (if tcp_at s = ReadingEfd \<and> 0 < uart_to_tcp_efd s then Some (s\<lparr>tcp_at := Draining, uart_to_tcp_efd := 0\<rparr>) else None)"
| "tcp_act K N (Drain io) s =
     (if tcp_at s = Draining then
        (case uart_to_tcp_queue s of
           [] \<Rightarrow> Some (s\<lparr>tcp_at := Selecting\<rparr>)
         | msg # msgs \<Rightarrow>
             (let s1 = s\<lparr>uart_to_tcp_queue := msgs, h_popped := h_popped s @ [msg]\<rparr>
              in case io of
                   SendOk \<Rightarrow> Some (s1\<lparr>h_sent := h_sent s @ fw_wire msg\<rparr>)
                 | SendHeaderFailed \<Rightarrow> Some (leave_closed K s1)
                 | SendBodyFailed \<Rightarrow>
                     Some (leave_closed K (s1\<lparr>h_sent := h_sent s @ [hdr_kind msg, hdr_len msg]\<rparr>))))
      else None)"
| "tcp_act K N _ s = None"

fun tx_act :: "kconfig \<Rightarrow> driver \<Rightarrow> fw_act \<Rightarrow> fw \<Rightarrow> fw option" where
  "tx_act K D (TxTake old) s =
     (if tx_at s = TxWaiting \<and> Message_ok old then
        (case tcp_to_uart_queue s of
           [] \<Rightarrow> None
         | msg # msgs \<Rightarrow>
             (case uart_tx_turn K D old msg of
                ((calls, ok), resp) \<Rightarrow>
                  Some (fold call_status calls
                    (s\<lparr>tcp_to_uart_queue := msgs, h_taken := h_taken s @ [msg], h_calls := h_calls s @ calls,
                       aborted := \<not> ok,
                       tx_at := (case resp of None \<Rightarrow> TxWaiting | Some r \<Rightarrow> TxResponding r)\<rparr>))))
      else None)"
| "tx_act K D TxSend s =
     (case tx_at s of
        TxResponding r \<Rightarrow>
          if length (uart_to_tcp_queue s) < UART_TO_TCP_DEPTH
          then Some (s\<lparr>uart_to_tcp_queue := uart_to_tcp_queue s @ [r], tx_at := TxSignalling\<rparr>) else None
      | _ \<Rightarrow> None)"
| "tx_act K D TxSignal s =
     (if tx_at s = TxSignalling then Some (s\<lparr>uart_to_tcp_efd := Suc (uart_to_tcp_efd s), tx_at := TxWaiting\<rparr>) else None)"
| "tx_act K D _ s = None"

fun rx_act :: "kconfig \<Rightarrow> fw_act \<Rightarrow> fw \<Rightarrow> fw option" where
  "rx_act K RxEvent s =
     (if rx_at s = RxWaiting then
        (case uart_event_queue s of
           [] \<Rightarrow> None
         | e # es \<Rightarrow> Some (s\<lparr>uart_event_queue := es, rx_at := (if e = UART_DATA then RxLooping else RxWaiting)\<rparr>))
      else None)"
| "rx_act K (RxRead old n) s =
     (if rx_at s = RxLooping \<and> Message_ok old then
        (let buffered_len = length (rx_buffer s)
         in if buffered_len = 0 then Some (s\<lparr>rx_at := RxWaiting\<rparr>)
            else if n \<le> to_read buffered_len then
              (if n = 0 then Some s
               else Some (s\<lparr>rx_buffer := drop n (rx_buffer s),
                            rx_at := RxSending (rx_message old (take n (rx_buffer s)))\<rparr>))
            else None)
      else None)"
| "rx_act K RxSend s =
     (case rx_at s of
        RxSending m \<Rightarrow>
          if length (uart_to_tcp_queue s) < UART_TO_TCP_DEPTH
          then Some (s\<lparr>uart_to_tcp_queue := uart_to_tcp_queue s @ [m], rx_at := RxSignalling\<rparr>) else None
      | _ \<Rightarrow> None)"
| "rx_act K RxSignal s =
     (if rx_at s = RxSignalling
      then Some ((if ESP_STATUS_LED_UART_ACTIVITY K then push_status STATUS_UART_RECV else (\<lambda>s. s))
             (s\<lparr>uart_to_tcp_efd := Suc (uart_to_tcp_efd s), rx_at := RxLooping\<rparr>))
      else None)"
| "rx_act K _ s = None"

text \<open>The UART driver, and the status task taking a message.\<close>

fun env_act :: "fw_act \<Rightarrow> fw \<Rightarrow> fw option" where
  "env_act (Arrive bs) s =
     (if length (rx_buffer s) + length bs \<le> UART_RX_BUFFER
      then Some (s\<lparr>rx_buffer := rx_buffer s @ bs, h_arrived := h_arrived s @ bs\<rparr>) else None)"
| "env_act (UartEvent e) s =
     (if length (uart_event_queue s) < UART_EVENT_QUEUE_SIZE
      then Some (s\<lparr>uart_event_queue := uart_event_queue s @ [e]\<rparr>) else None)"
| "env_act StatusTake s =
     (case status_update_queue s of [] \<Rightarrow> None | m # ms \<Rightarrow> Some (s\<lparr>status_update_queue := ms\<rparr>))"
| "env_act _ s = None"

text \<open>Every action belongs to one task. After an abort nothing happens any more: the firmware restarts.\<close>

definition fw_do :: "kconfig \<Rightarrow> driver \<Rightarrow> nat \<Rightarrow> fw_act \<Rightarrow> fw \<Rightarrow> fw option" where
  "fw_do K D N a s =
     (if aborted s then None
      else (case tcp_act K N a s of
              Some s' \<Rightarrow> Some s'
            | None \<Rightarrow>
                (case tx_act K D a s of
                   Some s' \<Rightarrow> Some s'
                 | None \<Rightarrow> (case rx_act K a s of Some s' \<Rightarrow> Some s' | None \<Rightarrow> env_act a s))))"

fun fw_run :: "kconfig \<Rightarrow> driver \<Rightarrow> nat \<Rightarrow> fw_act list \<Rightarrow> fw \<Rightarrow> fw option" where
  "fw_run K D N [] s = Some s"
| "fw_run K D N (a # as) s = (case fw_do K D N a s of None \<Rightarrow> None | Some s' \<Rightarrow> fw_run K D N as s')"

section \<open>Invariants\<close>

text \<open>What the transmit task does for a message, and the statuses it answers with.\<close>

definition message_calls :: "kconfig \<Rightarrow> driver \<Rightarrow> Message \<Rightarrow> uart_call list" where
  "message_calls K D msg = fst (fst (uart_tx_turn K D msg msg))"

definition answers :: "kconfig \<Rightarrow> Message \<Rightarrow> u8 list" where
  "answers K msg =
     (if hdr_kind msg = MESSAGE_KIND_CONTROL \<and> unat (hdr_len msg) = sizeof_ControlMessage
      then [if body msg ! 0 = CONTROL_CMD_RESET \<and> ESP_UART_RESET_ENABLED K then RESPONSE_STATUS_OK
            else RESPONSE_STATUS_NOT_SUPPORTED]
      else [])"

text \<open>The UART bytes and the response status a message to the client carries.\<close>

definition data_of :: "Message \<Rightarrow> u8 list" where
  "data_of m = (if hdr_kind m = MESSAGE_KIND_DATA then take (unat (hdr_len m)) (body m) else [])"

definition status_of :: "Message \<Rightarrow> u8 list" where
  "status_of m = (if hdr_kind m = MESSAGE_KIND_RESPONSE then [body m ! 0] else [])"

text \<open>The messages the firmware sends: non-empty data, and responses with a status of the protocol.\<close>

definition out_ok :: "Message \<Rightarrow> bool" where
  "out_ok m \<longleftrightarrow> Message_ok m \<and>
     (hdr_kind m = MESSAGE_KIND_DATA \<and> hdr_len m \<noteq> 0 \<or>
      hdr_kind m = MESSAGE_KIND_RESPONSE \<and> hdr_len m = 1 \<and> body m ! 0 \<in> {RESPONSE_STATUS_OK, RESPONSE_STATUS_NOT_SUPPORTED})"

definition out_message :: "Message \<Rightarrow> DeviceMessage" where
  "out_message m =
     (if hdr_kind m = MESSAGE_KIND_DATA then Data (hdr_len m) (body m)
      else ControlRes (if body m ! 0 = RESPONSE_STATUS_OK then CtlOk else CtlNotSupported))"

definition forward_pending :: "fw \<Rightarrow> Message list" where
  "forward_pending s = (case tcp_at s of Forwarding m _ \<Rightarrow> [m] | _ \<Rightarrow> [])"

definition rx_pending :: "fw \<Rightarrow> Message list" where
  "rx_pending s = (case rx_at s of RxSending m \<Rightarrow> [m] | _ \<Rightarrow> [])"

definition tx_pending :: "fw \<Rightarrow> Message list" where
  "tx_pending s = (case tx_at s of TxResponding m \<Rightarrow> [m] | _ \<Rightarrow> [])"

text \<open>All messages that went into the queue to the client.\<close>

definition to_client :: "fw \<Rightarrow> Message list" where
  "to_client s = h_popped s @ uart_to_tcp_queue s"

definition inv_forward :: "fw \<Rightarrow> bool" where
  "inv_forward s \<longleftrightarrow> h_read s = h_taken s @ tcp_to_uart_queue s @ forward_pending s"

definition inv_calls :: "kconfig \<Rightarrow> driver \<Rightarrow> fw \<Rightarrow> bool" where
  "inv_calls K D s \<longleftrightarrow> h_calls s = concat (map (message_calls K D) (h_taken s))"

definition inv_bounds :: "fw \<Rightarrow> bool" where
  "inv_bounds s \<longleftrightarrow> length (tcp_to_uart_queue s) \<le> TCP_TO_UART_DEPTH \<and>
     length (uart_to_tcp_queue s) \<le> UART_TO_TCP_DEPTH \<and> length (status_update_queue s) \<le> STATUS_DEPTH"

definition inv_uart :: "fw \<Rightarrow> bool" where
  "inv_uart s \<longleftrightarrow> h_arrived s = concat (map data_of (to_client s @ rx_pending s)) @ rx_buffer s"

definition inv_answers :: "kconfig \<Rightarrow> fw \<Rightarrow> bool" where
  "inv_answers K s \<longleftrightarrow> concat (map status_of (to_client s @ tx_pending s)) = concat (map (answers K) (h_taken s))"

definition inv_out :: "fw \<Rightarrow> bool" where
  "inv_out s \<longleftrightarrow> list_all out_ok (to_client s @ rx_pending s @ tx_pending s)"

definition inv_pending :: "fw \<Rightarrow> bool" where
  "inv_pending s \<longleftrightarrow> list_all (\<lambda>m. hdr_kind m = MESSAGE_KIND_DATA) (rx_pending s) \<and>
     list_all (\<lambda>m. hdr_kind m = MESSAGE_KIND_RESPONSE) (tx_pending s)"

definition inv_client :: "fw \<Rightarrow> bool" where
  "inv_client s \<longleftrightarrow> h_base s \<le> length (h_popped s) \<and>
     (tcp_at s \<noteq> Accepting \<longrightarrow> h_sent s = concat (map fw_wire (drop (h_base s) (h_popped s))))"

definition inv_sockets :: "fw \<Rightarrow> bool" where
  "inv_sockets s \<longleftrightarrow> sockets s = h_leaked s + (if tcp_at s = Accepting then 0 else 1)"

section \<open>Lemmas\<close>

lemma fw_do_cases [consumes 1, case_names Tcp Tx Rx Env]:
  assumes "fw_do K D N a s = Some s'"
  obtains "tcp_act K N a s = Some s'" | "tx_act K D a s = Some s'" | "rx_act K a s = Some s'" | "env_act a s = Some s'"
  using assms by (auto simp: fw_do_def split: option.splits if_splits)

lemma fw_run_invariant:
  assumes "\<And>a s s'. P s \<Longrightarrow> fw_do K D N a s = Some s' \<Longrightarrow> P s'"
  shows "fw_run K D N as s = Some s' \<Longrightarrow> P s \<Longrightarrow> P s'"
proof (induction "as" arbitrary: s)
  case (Cons a "as")
  from Cons.prems(1) obtain s1 where "fw_do K D N a s = Some s1" "fw_run K D N as s1 = Some s'"
    by (auto split: option.splits)
  with Cons assms show ?case by blast
qed simp

lemma fw_run_append:
  "fw_run K D N (as @ bs) s = (case fw_run K D N as s of None \<Rightarrow> None | Some s' \<Rightarrow> fw_run K D N bs s')"
  by (induction "as" arbitrary: s) (simp_all split: option.split)

lemma uart_tx_turn_calls: "uart_tx_turn K D old msg = ((calls, ok), resp) \<Longrightarrow> message_calls K D msg = calls"
  by (auto simp: message_calls_def uart_tx_turn_def handle_control_def Let_def split: if_splits prod.splits)

lemma uart_tx_turn_response:
  assumes "uart_tx_turn K D old msg = ((calls, ok), resp)" and "Message_ok old"
  shows "answers K msg = (case resp of None \<Rightarrow> [] | Some r \<Rightarrow> status_of r)"
    and "resp = Some r \<Longrightarrow> out_ok r \<and> hdr_kind r = MESSAGE_KIND_RESPONSE"
proof -
  have b: "body old \<noteq> []" using assms(2) by (auto simp: Message_ok_def fw_defs)
  show "answers K msg = (case resp of None \<Rightarrow> [] | Some r \<Rightarrow> status_of r)"
    using assms b by (auto simp: uart_tx_turn_def handle_control_def answers_def status_of_def fw_defs Let_def
        split: if_splits prod.splits)
  show "out_ok r \<and> hdr_kind r = MESSAGE_KIND_RESPONSE" if "resp = Some r"
    using that assms b by (auto simp: uart_tx_turn_def handle_control_def out_ok_def Message_ok_def fw_defs Let_def
        split: if_splits prod.splits)
qed

lemma rx_message_facts:
  assumes "Message_ok old" and "n \<le> to_read (length buf)" and "0 < n"
  shows "out_ok (rx_message old (take n buf))" "data_of (rx_message old (take n buf)) = take n buf"
    "hdr_kind (rx_message old (take n buf)) = MESSAGE_KIND_DATA"
proof -
  have n: "n \<le> 255" "n \<le> length buf" using assms(2) by (auto simp: to_read_def fw_defs split: if_splits)
  then have "(of_nat n :: u8) \<noteq> 0" using assms(3) unat_of_nat_u8 [of n] by (metis less_numeral_extra(3) unat_0)
  with n assms(1) show "out_ok (rx_message old (take n buf))"
    "data_of (rx_message old (take n buf)) = take n buf"
    "hdr_kind (rx_message old (take n buf)) = MESSAGE_KIND_DATA"
    by (simp_all add: out_ok_def rx_message_def Message_ok_def data_of_def fw_defs min_def)
qed

section \<open>Steps as a relation\<close>

text \<open>
  The effect of every step, with the status queue left open up to its bound: this is what the invariants
  depend on.
\<close>

definition status_ok :: "fw \<Rightarrow> StatusUpdateMessage list \<Rightarrow> bool" where
  "status_ok s q \<longleftrightarrow> (length (status_update_queue s) \<le> STATUS_DEPTH \<longrightarrow> length q \<le> STATUS_DEPTH)"

inductive fw_step :: "kconfig \<Rightarrow> driver \<Rightarrow> nat \<Rightarrow> fw \<Rightarrow> fw \<Rightarrow> bool" for K D N s where
  accept: "tcp_at s = Accepting \<Longrightarrow> sockets s < N \<Longrightarrow> status_ok s q \<Longrightarrow>
     fw_step K D N s (s\<lparr>tcp_at := Selecting, sockets := Suc (sockets s), h_base := length (h_popped s), h_sent := [],
       status_update_queue := q\<rparr>)"
| stay: "fw_step K D N s s"
| lost: "tcp_at s = Selecting \<or> tcp_at s = Reading e \<Longrightarrow> status_ok s q \<Longrightarrow>
     fw_step K D N s (s\<lparr>tcp_at := Accepting, h_leaked := Suc (h_leaked s), status_update_queue := q\<rparr>)"
| ready: "tcp_at s = Selecting \<Longrightarrow> (pc = Reading (0 < uart_to_tcp_efd s) \<or> pc = ReadingEfd \<and> 0 < uart_to_tcp_efd s) \<Longrightarrow>
     fw_step K D N s (s\<lparr>tcp_at := pc\<rparr>)"
| message: "tcp_at s = Reading e \<Longrightarrow> Message_ok m \<Longrightarrow>
     fw_step K D N s (s\<lparr>tcp_at := Forwarding m e, h_read := h_read s @ [m]\<rparr>)"
| forward: "tcp_at s = Forwarding m e \<Longrightarrow> length (tcp_to_uart_queue s) < TCP_TO_UART_DEPTH \<Longrightarrow>
     fw_step K D N s (s\<lparr>tcp_at := after_client e, tcp_to_uart_queue := tcp_to_uart_queue s @ [m]\<rparr>)"
| notified: "tcp_at s = ReadingEfd \<Longrightarrow> fw_step K D N s (s\<lparr>tcp_at := Draining, uart_to_tcp_efd := 0\<rparr>)"
| drained: "tcp_at s = Draining \<Longrightarrow> uart_to_tcp_queue s = [] \<Longrightarrow> fw_step K D N s (s\<lparr>tcp_at := Selecting\<rparr>)"
| send: "tcp_at s = Draining \<Longrightarrow> uart_to_tcp_queue s = m # ms \<Longrightarrow>
     fw_step K D N s (s\<lparr>uart_to_tcp_queue := ms, h_popped := h_popped s @ [m], h_sent := h_sent s @ fw_wire m\<rparr>)"
| send_failed: "tcp_at s = Draining \<Longrightarrow> uart_to_tcp_queue s = m # ms \<Longrightarrow> status_ok s q \<Longrightarrow>
     fw_step K D N s (s\<lparr>uart_to_tcp_queue := ms, h_popped := h_popped s @ [m], h_sent := bs, tcp_at := Accepting,
       sockets := sockets s - 1, h_send_failed := True, status_update_queue := q\<rparr>)"
| take: "tx_at s = TxWaiting \<Longrightarrow> tcp_to_uart_queue s = m # ms \<Longrightarrow> Message_ok old \<Longrightarrow>
     uart_tx_turn K D old m = ((calls, ok), resp) \<Longrightarrow> status_ok s q \<Longrightarrow>
     fw_step K D N s (s\<lparr>tcp_to_uart_queue := ms, h_taken := h_taken s @ [m], h_calls := h_calls s @ calls, aborted := \<not> ok,
       tx_at := (case resp of None \<Rightarrow> TxWaiting | Some r \<Rightarrow> TxResponding r), status_update_queue := q\<rparr>)"
| respond: "tx_at s = TxResponding m \<Longrightarrow> length (uart_to_tcp_queue s) < UART_TO_TCP_DEPTH \<Longrightarrow>
     fw_step K D N s (s\<lparr>uart_to_tcp_queue := uart_to_tcp_queue s @ [m], tx_at := TxSignalling\<rparr>)"
| tx_signal: "tx_at s = TxSignalling \<Longrightarrow> fw_step K D N s (s\<lparr>uart_to_tcp_efd := Suc (uart_to_tcp_efd s), tx_at := TxWaiting\<rparr>)"
| event: "rx_at s = RxWaiting \<Longrightarrow> uart_event_queue s = e # es \<Longrightarrow> pc \<in> {RxLooping, RxWaiting} \<Longrightarrow>
     fw_step K D N s (s\<lparr>uart_event_queue := es, rx_at := pc\<rparr>)"
| emptied: "rx_at s = RxLooping \<Longrightarrow> rx_buffer s = [] \<Longrightarrow> fw_step K D N s (s\<lparr>rx_at := RxWaiting\<rparr>)"
| receive: "rx_at s = RxLooping \<Longrightarrow> Message_ok old \<Longrightarrow> n \<le> to_read (length (rx_buffer s)) \<Longrightarrow> 0 < n \<Longrightarrow>
     fw_step K D N s (s\<lparr>rx_buffer := drop n (rx_buffer s), rx_at := RxSending (rx_message old (take n (rx_buffer s)))\<rparr>)"
| enqueue: "rx_at s = RxSending m \<Longrightarrow> length (uart_to_tcp_queue s) < UART_TO_TCP_DEPTH \<Longrightarrow>
     fw_step K D N s (s\<lparr>uart_to_tcp_queue := uart_to_tcp_queue s @ [m], rx_at := RxSignalling\<rparr>)"
| rx_signal: "rx_at s = RxSignalling \<Longrightarrow> status_ok s q \<Longrightarrow>
     fw_step K D N s (s\<lparr>uart_to_tcp_efd := Suc (uart_to_tcp_efd s), rx_at := RxLooping, status_update_queue := q\<rparr>)"
| arrive: "fw_step K D N s (s\<lparr>rx_buffer := rx_buffer s @ bs, h_arrived := h_arrived s @ bs\<rparr>)"
| post: "fw_step K D N s (s\<lparr>uart_event_queue := es\<rparr>)"
| status: "status_ok s q \<Longrightarrow> fw_step K D N s (s\<lparr>status_update_queue := q\<rparr>)"

lemma push_status_upd: "\<exists>q. push_status m s = s\<lparr>status_update_queue := q\<rparr> \<and> status_ok s q"
proof (cases "length (status_update_queue s) < STATUS_DEPTH")
  case True
  then show ?thesis by (intro exI [of _ "status_update_queue s @ [m]"]) (simp add: push_status_def status_ok_def)
next
  case False
  then show ?thesis by (intro exI [of _ "status_update_queue s"]) (simp add: push_status_def status_ok_def)
qed

lemma status_ok_same: "status_ok s (status_update_queue s)"
  by (simp add: status_ok_def)

lemma status_ok_trans: "status_ok s q \<Longrightarrow> status_ok (s\<lparr>status_update_queue := q\<rparr>) q' \<Longrightarrow> status_ok s q'"
  by (simp add: status_ok_def)

lemma led_status_upd: "\<exists>q. led_status K m s = s\<lparr>status_update_queue := q\<rparr> \<and> status_ok s q"
proof (cases "ESP_STATUS_LED_ENABLED K")
  case False
  then show ?thesis by (intro exI [of _ "status_update_queue s"]) (simp add: led_status_def status_ok_same)
qed (simp add: led_status_def push_status_upd)

lemma call_status_upd: "\<exists>q. fold call_status calls s = s\<lparr>status_update_queue := q\<rparr> \<and> status_ok s q"
proof (induction calls arbitrary: s)
  case Nil
  show ?case by (intro exI [of _ "status_update_queue s"]) (simp add: status_ok_same)
next
  case (Cons c cs)
  have "\<exists>q. call_status c s = s\<lparr>status_update_queue := q\<rparr> \<and> status_ok s q"
  proof (cases "\<exists>m. c = send_status m")
    case True
    then show ?thesis using push_status_upd by auto
  next
    case False
    then have "call_status c s = s" by (cases c) simp_all
    then show ?thesis by (intro exI [of _ "status_update_queue s"]) (simp add: status_ok_same)
  qed
  then obtain q where q: "call_status c s = s\<lparr>status_update_queue := q\<rparr>" "status_ok s q" by blast
  from Cons.IH [of "call_status c s"] obtain q' where
    "fold call_status cs (call_status c s) = call_status c s\<lparr>status_update_queue := q'\<rparr>" "status_ok (call_status c s) q'" by blast
  with q status_ok_trans [of s q q'] show ?case by (intro exI [of _ q']) simp
qed

lemma lost_step:
  assumes "tcp_at s = Selecting \<or> tcp_at s = Reading e"
  shows "fw_step K D N s (leave_open K s)"
proof -
  let ?s = "s\<lparr>tcp_at := Accepting, h_leaked := Suc (h_leaked s)\<rparr>"
  obtain q where "led_status K STATUS_TCP_CLIENT_DISCONNECTED ?s = ?s\<lparr>status_update_queue := q\<rparr>" "status_ok ?s q"
    using led_status_upd by blast
  with fw_step.lost [OF assms, of q K D N] show ?thesis by (simp add: leave_open_def status_ok_def)
qed

lemma tcp_act_step:
  assumes "tcp_act K N a s = Some s'"
  shows "fw_step K D N s s'"
  using assms
proof (cases a)
  case AcceptOk
  let ?s = "s\<lparr>tcp_at := Selecting, sockets := Suc (sockets s), h_base := length (h_popped s), h_sent := []\<rparr>"
  obtain q where "led_status K STATUS_TCP_CLIENT_CONNECTED ?s = ?s\<lparr>status_update_queue := q\<rparr>" "status_ok ?s q"
    using led_status_upd by blast
  with assms AcceptOk fw_step.accept [of s N q K D] show ?thesis by (auto simp: status_ok_def split: if_splits)
next
  case (Drain io)
  show ?thesis
  proof (cases "uart_to_tcp_queue s")
    case Nil
    with assms Drain show ?thesis by (auto intro: fw_step.drained split: if_splits)
  next
    case (Cons m ms)
    have failed: "fw_step K D N s (leave_closed K (s\<lparr>uart_to_tcp_queue := ms, h_popped := h_popped s @ [m], h_sent := bs\<rparr>))"
      if "tcp_at s = Draining" for bs
    proof -
      let ?s = "s\<lparr>uart_to_tcp_queue := ms, h_popped := h_popped s @ [m], h_sent := bs, tcp_at := Accepting,
        sockets := sockets s - 1, h_send_failed := True\<rparr>"
      obtain q where "led_status K STATUS_TCP_CLIENT_DISCONNECTED ?s = ?s\<lparr>status_update_queue := q\<rparr>" "status_ok ?s q"
        using led_status_upd by blast
      with fw_step.send_failed [OF that Cons, of q K D N bs] show ?thesis by (simp add: leave_closed_def status_ok_def)
    qed
    from assms Drain Cons fw_step.send [of s m ms K D N] failed [of "h_sent s"] failed [of "h_sent s @ [hdr_kind m, hdr_len m]"]
    show ?thesis by (auto simp: Let_def split: if_splits send_outcome.splits)
  qed
next
  case SelectFailed
  with assms show ?thesis using lost_step by (auto split: if_splits)
next
  case ReadFailed
  with assms show ?thesis using lost_step by (auto split: tcp_pc.splits)
qed (auto simp: Let_def intro: fw_step.intros split: if_splits tcp_pc.splits)

lemma tx_act_step:
  assumes "tx_act K D a s = Some s'"
  shows "fw_step K D N s s'"
  using assms
proof (cases a)
  case (TxTake old)
  from assms TxTake obtain m ms where pre: "tx_at s = TxWaiting" "tcp_to_uart_queue s = m # ms" "Message_ok old"
    by (auto split: if_splits list.splits)
  obtain calls ok resp where turn: "uart_tx_turn K D old m = ((calls, ok), resp)" by (metis surj_pair)
  let ?s = "s\<lparr>tcp_to_uart_queue := ms, h_taken := h_taken s @ [m], h_calls := h_calls s @ calls, aborted := \<not> ok,
    tx_at := (case resp of None \<Rightarrow> TxWaiting | Some r \<Rightarrow> TxResponding r)\<rparr>"
  obtain q where "fold call_status calls ?s = ?s\<lparr>status_update_queue := q\<rparr>" "status_ok ?s q"
    using call_status_upd by blast
  with assms TxTake pre turn fw_step.take [OF pre turn, of q N] show ?thesis by (simp add: status_ok_def)
qed (auto intro: fw_step.intros split: if_splits tx_pc.splits)

lemma rx_act_step:
  assumes "rx_act K a s = Some s'"
  shows "fw_step K D N s s'"
  using assms
proof (cases a)
  case RxSignal
  let ?s = "s\<lparr>uart_to_tcp_efd := Suc (uart_to_tcp_efd s), rx_at := RxLooping\<rparr>"
  obtain q where q: "push_status STATUS_UART_RECV ?s = ?s\<lparr>status_update_queue := q\<rparr>" "status_ok ?s q"
    using push_status_upd by blast
  have "rx_at s = RxSignalling" using assms RxSignal by (auto split: if_splits)
  from fw_step.rx_signal [OF this, of q K D N] fw_step.rx_signal [OF this status_ok_same, of K D N] q assms RxSignal show ?thesis
    by (auto simp: status_ok_def split: if_splits)
qed (auto simp: Let_def intro: fw_step.intros split: if_splits rx_pc.splits list.splits)

lemma env_act_step:
  assumes "env_act a s = Some s'"
  shows "fw_step K D N s s'"
  using assms
proof (cases a)
  case StatusTake
  with assms show ?thesis
    using fw_step.status [of s "tl (status_update_queue s)" K D N] by (auto simp: status_ok_def split: list.splits)
qed (auto intro: fw_step.intros split: if_splits)

lemma fw_do_step: "fw_do K D N a s = Some s' \<Longrightarrow> fw_step K D N s s'"
  by (erule fw_do_cases) (rule tcp_act_step tx_act_step rx_act_step env_act_step, assumption)+

lemma fw_run_inv:
  assumes "fw_run K D N as s = Some s'" and "P s" and "\<And>s s'. fw_step K D N s s' \<Longrightarrow> P s \<Longrightarrow> P s'"
  shows "P s'"
proof (rule fw_run_invariant [of P, OF _ assms(1,2)])
  show "P s'" if "P s" and "fw_do K D N a s = Some s'" for a s s'
    using assms(3) [OF fw_do_step] that by blast
qed

text \<open>Every step keeps every invariant.\<close>

lemmas pending_defs = forward_pending_def rx_pending_def tx_pending_def to_client_def

lemma inv_forward_step: "fw_step K D N s s' \<Longrightarrow> inv_forward s \<Longrightarrow> inv_forward s'"
  by (cases rule: fw_step.cases)
     (auto simp: inv_forward_def pending_defs after_client_def split: if_splits)

lemma inv_calls_step: "fw_step K D N s s' \<Longrightarrow> inv_calls K D s \<Longrightarrow> inv_calls K D s'"
  by (cases rule: fw_step.cases) (auto simp: inv_calls_def uart_tx_turn_calls)

lemma inv_bounds_step: "fw_step K D N s s' \<Longrightarrow> inv_bounds s \<Longrightarrow> inv_bounds s'"
  by (cases rule: fw_step.cases) (auto simp: inv_bounds_def status_ok_def)

lemma inv_out_step: "fw_step K D N s s' \<Longrightarrow> inv_out s \<Longrightarrow> inv_out s'"
  by (cases rule: fw_step.cases)
     (auto simp: inv_out_def pending_defs rx_message_facts uart_tx_turn_response(2) split: option.split)

lemma inv_pending_step: "fw_step K D N s s' \<Longrightarrow> inv_pending s \<Longrightarrow> inv_pending s'"
  by (cases rule: fw_step.cases)
     (auto simp: inv_pending_def pending_defs rx_message_facts uart_tx_turn_response(2) split: option.split)

lemma inv_client_step: "fw_step K D N s s' \<Longrightarrow> inv_client s \<Longrightarrow> inv_client s'"
  by (cases rule: fw_step.cases) (auto simp: inv_client_def)

lemma inv_sockets_step: "fw_step K D N s s' \<Longrightarrow> inv_sockets s \<Longrightarrow> inv_sockets s'"
  by (cases rule: fw_step.cases) (auto simp: inv_sockets_def after_client_def split: if_splits)

lemma data_status_of:
  "hdr_kind m = MESSAGE_KIND_RESPONSE \<Longrightarrow> data_of m = []"
  "hdr_kind m = MESSAGE_KIND_DATA \<Longrightarrow> status_of m = []"
  by (simp_all add: data_of_def status_of_def fw_defs)

lemma inv_uart_step: "fw_step K D N s s' \<Longrightarrow> inv_pending s \<Longrightarrow> inv_uart s \<Longrightarrow> inv_uart s'"
  by (cases rule: fw_step.cases)
     (auto simp: inv_uart_def inv_pending_def pending_defs rx_message_facts data_status_of)

lemma inv_answers_step: "fw_step K D N s s' \<Longrightarrow> inv_pending s \<Longrightarrow> inv_answers K s \<Longrightarrow> inv_answers K s'"
  by (cases rule: fw_step.cases)
     (auto simp: inv_answers_def inv_pending_def pending_defs uart_tx_turn_response(1) data_status_of split: option.split)

lemmas fw_step_invs = inv_forward_step inv_calls_step inv_bounds_step inv_out_step inv_pending_step inv_client_step
  inv_sockets_step inv_uart_step inv_answers_step

definition fw_inv :: "kconfig \<Rightarrow> driver \<Rightarrow> fw \<Rightarrow> bool" where
  "fw_inv K D s \<longleftrightarrow> inv_forward s \<and> inv_calls K D s \<and> inv_bounds s \<and> inv_out s \<and> inv_pending s \<and> inv_client s \<and>
     inv_sockets s \<and> inv_uart s \<and> inv_answers K s"

lemma fw_inv_step: "fw_step K D N s s' \<Longrightarrow> fw_inv K D s \<Longrightarrow> fw_inv K D s'"
  unfolding fw_inv_def by (intro conjI) (blast intro: fw_step_invs)+

lemma fw_inv_init: "fw_inv K D fw_init"
  by (simp add: fw_inv_def fw_init_def inv_forward_def inv_calls_def inv_bounds_def inv_out_def inv_pending_def
      inv_client_def inv_sockets_def inv_uart_def inv_answers_def pending_defs)

lemma fw_reach_inv: "fw_run K D N as fw_init = Some s \<Longrightarrow> fw_inv K D s"
  by (rule fw_run_inv [of K D N "as" fw_init s "fw_inv K D", OF _ fw_inv_init fw_inv_step])

section \<open>Wake-ups\<close>

text \<open>
  Queued messages are not forgotten: as long as no send has failed, the event descriptor is ready whenever
  a message is queued and nobody is about to signal it or to take it.
\<close>

definition inv_wake :: "fw \<Rightarrow> bool" where
  "inv_wake s \<longleftrightarrow>
     (uart_to_tcp_queue s \<noteq> [] \<and> tcp_at s \<noteq> Draining \<and> tx_at s \<noteq> TxSignalling \<and> rx_at s \<noteq> RxSignalling \<and> \<not> h_send_failed s
        \<longrightarrow> 0 < uart_to_tcp_efd s)"

lemma inv_wake_step: "fw_step K D N s s' \<Longrightarrow> inv_wake s \<Longrightarrow> inv_wake s'"
  by (cases rule: fw_step.cases) (auto simp: inv_wake_def split: option.splits)

lemma fw_reach_wake: "fw_run K D N as fw_init = Some s \<Longrightarrow> inv_wake s"
  by (rule fw_run_inv [of K D N "as" fw_init s inv_wake, OF _ _ inv_wake_step]) (simp_all add: inv_wake_def fw_init_def)

text \<open>Sending all that is queued.\<close>

lemma drain_all:
  assumes "\<not> aborted s" and "tcp_at s = Draining"
  shows "\<exists>s'. fw_run K D N (replicate (length (uart_to_tcp_queue s)) (Drain SendOk) @ [Drain SendOk]) s = Some s' \<and>
    tcp_at s' = Selecting \<and> uart_to_tcp_queue s' = [] \<and> h_sent s' = h_sent s @ concat (map fw_wire (uart_to_tcp_queue s))"
  using assms
proof (induction "uart_to_tcp_queue s" arbitrary: s)
  case Nil
  then show ?case by (simp add: fw_do_def flip: Nil(1))
next
  case (Cons m ms)
  let ?s = "s\<lparr>uart_to_tcp_queue := ms, h_popped := h_popped s @ [m], h_sent := h_sent s @ fw_wire m\<rparr>"
  have "fw_do K D N (Drain SendOk) s = Some ?s" using Cons(2-4) by (simp add: fw_do_def Let_def flip: Cons(2))
  with Cons(1) [of ?s] Cons(2-4) show ?case by (simp flip: Cons(2))
qed

section \<open>Deadlock\<close>

text \<open>
  The TCP task waits for room in the queue to the transmit task, the transmit task for room in the
  queue to the TCP task.
\<close>

definition deadlocked :: "fw \<Rightarrow> bool" where
  "deadlocked s \<longleftrightarrow> (\<exists>m e. tcp_at s = Forwarding m e) \<and> length (tcp_to_uart_queue s) = TCP_TO_UART_DEPTH \<and>
     (\<exists>r. tx_at s = TxResponding r) \<and> length (uart_to_tcp_queue s) = UART_TO_TCP_DEPTH"

lemma deadlocked_step:
  "fw_step K D N s s' \<Longrightarrow> deadlocked s \<Longrightarrow>
    deadlocked s' \<and> tcp_at s' = tcp_at s \<and> tx_at s' = tx_at s \<and> tcp_to_uart_queue s' = tcp_to_uart_queue s \<and>
    uart_to_tcp_queue s' = uart_to_tcp_queue s \<and> h_calls s' = h_calls s \<and> h_sent s' = h_sent s"
  by (cases rule: fw_step.cases) (auto simp: deadlocked_def)

lemma deadlocked_forever:
  assumes "fw_run K D N as s = Some s'" and "deadlocked s"
  shows "deadlocked s' \<and> h_calls s' = h_calls s \<and> h_sent s' = h_sent s"
  by (rule fw_run_inv [of K D N "as" s s' "\<lambda>t. deadlocked t \<and> h_calls t = h_calls s \<and> h_sent t = h_sent s"])
     (use assms deadlocked_step in auto)

text \<open>One received byte becomes one queued message, whatever the other tasks are at.\<close>

definition rx_cycle :: "fw_act list" where
  "rx_cycle = [Arrive [0], UartEvent UART_DATA, RxEvent, RxRead demo_buffer 1, RxSend, RxSignal, RxRead demo_buffer 0]"

definition rx_idle :: "fw \<Rightarrow> bool" where
  "rx_idle s \<longleftrightarrow> rx_at s = RxWaiting \<and> rx_buffer s = [] \<and> uart_event_queue s = [] \<and> \<not> aborted s"

lemma rx_cycle_run:
  assumes "rx_idle s" and "length (uart_to_tcp_queue s) < UART_TO_TCP_DEPTH"
  shows "\<exists>s'. fw_run K D N rx_cycle s = Some s' \<and> rx_idle s' \<and>
    length (uart_to_tcp_queue s') = Suc (length (uart_to_tcp_queue s)) \<and> tcp_at s' = tcp_at s \<and> tx_at s' = tx_at s \<and>
    tcp_to_uart_queue s' = tcp_to_uart_queue s"
  using assms
  by (simp add: rx_cycle_def rx_idle_def fw_do_def UART_RX_BUFFER_def UART_EVENT_QUEUE_SIZE_def Message_ok_def
      demo_buffer_def fw_defs to_read_def push_status_def Let_def)

lemma rx_cycles_run:
  "rx_idle s \<Longrightarrow> length (uart_to_tcp_queue s) + n \<le> UART_TO_TCP_DEPTH \<Longrightarrow>
   \<exists>s'. fw_run K D N (concat (replicate n rx_cycle)) s = Some s' \<and> rx_idle s' \<and>
    length (uart_to_tcp_queue s') = length (uart_to_tcp_queue s) + n \<and> tcp_at s' = tcp_at s \<and> tx_at s' = tx_at s \<and>
    tcp_to_uart_queue s' = tcp_to_uart_queue s"
proof (induction n arbitrary: s)
  case (Suc n)
  from rx_cycle_run [of s K D N] Suc.prems obtain s1 where s1: "fw_run K D N rx_cycle s = Some s1" "rx_idle s1"
    "length (uart_to_tcp_queue s1) = Suc (length (uart_to_tcp_queue s))" "tcp_at s1 = tcp_at s" "tx_at s1 = tx_at s"
    "tcp_to_uart_queue s1 = tcp_to_uart_queue s" by auto
  from Suc.IH [OF s1(2)] s1(3) Suc.prems obtain s' where "fw_run K D N (concat (replicate n rx_cycle)) s1 = Some s'" "rx_idle s'"
    "length (uart_to_tcp_queue s') = length (uart_to_tcp_queue s) + Suc n" "tcp_at s' = tcp_at s1" "tx_at s' = tx_at s1"
    "tcp_to_uart_queue s' = tcp_to_uart_queue s1" by auto
  with s1 show ?case by (simp add: fw_run_append)
qed simp

text \<open>A client whose messages pile up before the transmit task.\<close>

definition client_cycle :: "Message \<Rightarrow> fw_act list" where
  "client_cycle m = [Select True, ReadMsg m, Forward]"

lemma client_cycles_run:
  "Message_ok m \<Longrightarrow> tcp_at s = Selecting \<Longrightarrow> uart_to_tcp_efd s = 0 \<Longrightarrow> \<not> aborted s \<Longrightarrow>
   length (tcp_to_uart_queue s) + n \<le> TCP_TO_UART_DEPTH \<Longrightarrow>
   \<exists>s'. fw_run K D N (concat (replicate n (client_cycle m))) s = Some s' \<and> tcp_at s' = Selecting \<and> uart_to_tcp_efd s' = 0 \<and>
    \<not> aborted s' \<and> length (tcp_to_uart_queue s') = length (tcp_to_uart_queue s) + n \<and>
    rx_idle s' = rx_idle s \<and> tx_at s' = tx_at s \<and> uart_to_tcp_queue s' = uart_to_tcp_queue s"
proof (induction n arbitrary: s)
  case (Suc n)
  let ?s = "s\<lparr>tcp_at := Selecting, h_read := h_read s @ [m], tcp_to_uart_queue := tcp_to_uart_queue s @ [m]\<rparr>"
  have "fw_run K D N (client_cycle m) s = Some ?s"
    using Suc.prems by (simp add: client_cycle_def fw_do_def after_client_def Let_def)
  with Suc.IH [of ?s] Suc.prems show ?case by (auto simp: fw_run_append rx_idle_def)
qed simp

definition reset_message :: Message where
  "reset_message = fw_message (ControlReq CtlReset) (replicate MAX_MESSAGE_BODY_SIZE 0)"

definition deadlock_acts :: "fw_act list" where
  "deadlock_acts = (AcceptOk # client_cycle reset_message @ [TxTake demo_buffer]) @
     (concat (replicate TCP_TO_UART_DEPTH (client_cycle reset_message)) @ [Select True, ReadMsg reset_message]) @
     concat (replicate UART_TO_TCP_DEPTH rx_cycle)"

lemma reset_message_ok: "Message_ok reset_message" "hdr_kind reset_message = MESSAGE_KIND_CONTROL" "hdr_len reset_message = 1"
  by (simp_all add: reset_message_def Message_ok_def fw_message_def fw_defs)

lemma demo_buffer_ok: "Message_ok demo_buffer"
  by (simp add: demo_buffer_def Message_ok_def fw_defs)

lemma deadlock_start:
  assumes "0 < N"
  shows "\<exists>s r. fw_run K D N (AcceptOk # client_cycle reset_message @ [TxTake demo_buffer]) fw_init = Some s \<and>
    tcp_at s = Selecting \<and> uart_to_tcp_efd s = 0 \<and> rx_idle s \<and> tcp_to_uart_queue s = [] \<and> uart_to_tcp_queue s = [] \<and>
    tx_at s = TxResponding r"
proof -
  obtain q where q: "led_status K STATUS_TCP_CLIENT_CONNECTED
      (fw_init\<lparr>tcp_at := Selecting, sockets := 1, h_base := 0, h_sent := []\<rparr>)
      = fw_init\<lparr>tcp_at := Selecting, sockets := 1, h_base := 0, h_sent := [], status_update_queue := q\<rparr>"
    using led_status_upd by metis
  let ?s = "fw_init\<lparr>tcp_at := Selecting, sockets := 1, h_base := 0, h_sent := [], status_update_queue := q,
    h_read := [reset_message], tcp_to_uart_queue := [reset_message]\<rparr>"
  have run: "fw_run K D N (AcceptOk # client_cycle reset_message) fw_init = Some ?s"
    using assms q by (simp add: fw_do_def client_cycle_def fw_init_def after_client_def reset_message_ok TCP_TO_UART_DEPTH_def Let_def)
  obtain calls r where "handle_control K demo_buffer (body reset_message ! 0) = (calls, r)" by fastforce
  then have "uart_tx_turn K D demo_buffer reset_message = ((calls, True), Some r)"
    by (simp add: uart_tx_turn_def reset_message_ok fw_defs)
  then obtain s' where step: "fw_do K D N (TxTake demo_buffer) ?s = Some s'" and s': "s' = fold call_status calls (?s\<lparr>tcp_to_uart_queue := [],
      h_taken := [reset_message], h_calls := calls, aborted := False, tx_at := TxResponding r\<rparr>)"
    by (simp add: fw_do_def fw_init_def demo_buffer_ok)
  obtain q' where "s' = ?s\<lparr>tcp_to_uart_queue := [], h_taken := [reset_message], h_calls := calls, aborted := False,
      tx_at := TxResponding r, status_update_queue := q'\<rparr>"
    using call_status_upd s' by metis
  moreover have "fw_run K D N (AcceptOk # client_cycle reset_message @ [TxTake demo_buffer]) fw_init = Some s'"
    unfolding append_Cons [symmetric] fw_run_append run by (simp only: fw_run.simps option.case step)
  ultimately show ?thesis by (intro exI [of _ s'] exI [of _ r]) (simp add: fw_init_def rx_idle_def)
qed

lemma deadlock_reached:
  assumes "0 < N"
  shows "\<exists>s. fw_run K D N deadlock_acts fw_init = Some s \<and> deadlocked s"
proof -
  obtain s1 r where s1: "fw_run K D N (AcceptOk # client_cycle reset_message @ [TxTake demo_buffer]) fw_init = Some s1"
    "tcp_at s1 = Selecting" "uart_to_tcp_efd s1 = 0" "rx_idle s1" "tcp_to_uart_queue s1 = []" "uart_to_tcp_queue s1 = []"
    "tx_at s1 = TxResponding r"
    using deadlock_start [OF assms] by blast
  have "\<not> aborted s1" "length (tcp_to_uart_queue s1) + TCP_TO_UART_DEPTH \<le> TCP_TO_UART_DEPTH"
    using s1(4,5) by (simp_all add: rx_idle_def)
  from client_cycles_run [OF reset_message_ok(1) s1(2,3) this, of K D N] s1 obtain s2 where
    s2: "fw_run K D N (concat (replicate TCP_TO_UART_DEPTH (client_cycle reset_message))) s1 = Some s2"
    "tcp_at s2 = Selecting" "uart_to_tcp_efd s2 = 0" "length (tcp_to_uart_queue s2) = TCP_TO_UART_DEPTH" "rx_idle s2"
    "tx_at s2 = TxResponding r" "uart_to_tcp_queue s2 = []" by auto
  let ?s3 = "s2\<lparr>tcp_at := Forwarding reset_message False, h_read := h_read s2 @ [reset_message]\<rparr>"
  have s3: "fw_run K D N [Select True, ReadMsg reset_message] s2 = Some ?s3" "rx_idle ?s3"
    using s2 by (simp_all add: fw_do_def reset_message_ok rx_idle_def Let_def)
  from rx_cycles_run [OF s3(2), of UART_TO_TCP_DEPTH K D N] s2 obtain s4 where
    s4: "fw_run K D N (concat (replicate UART_TO_TCP_DEPTH rx_cycle)) ?s3 = Some s4"
    "length (uart_to_tcp_queue s4) = UART_TO_TCP_DEPTH" "tcp_at s4 = Forwarding reset_message False" "tx_at s4 = TxResponding r"
    "tcp_to_uart_queue s4 = tcp_to_uart_queue s2" by auto
  have "fw_run K D N deadlock_acts fw_init = Some s4"
    unfolding deadlock_acts_def fw_run_append [of K D N _ _ fw_init] s1(1) option.case fw_run_append [of K D N _ _ s1]
    using s2(1) s3(1) s4(1) by (simp add: fw_run_append)
  then show ?thesis using s2(4) s4 by (auto simp: deadlocked_def)
qed

section \<open>Sockets\<close>

definition leak_cycle :: "fw_act list" where
  "leak_cycle = [AcceptOk, Select True, ReadFailed]"

lemma led_status_facts [simp]:
  "tcp_at (led_status K m s) = tcp_at s" "sockets (led_status K m s) = sockets s" "aborted (led_status K m s) = aborted s"
  "uart_to_tcp_efd (led_status K m s) = uart_to_tcp_efd s"
  by (simp_all add: led_status_def push_status_def)

lemma leak_cycles_run:
  "tcp_at s = Accepting \<Longrightarrow> \<not> aborted s \<Longrightarrow> sockets s + n \<le> N \<Longrightarrow>
   \<exists>s'. fw_run K D N (concat (replicate n leak_cycle)) s = Some s' \<and> tcp_at s' = Accepting \<and> \<not> aborted s' \<and> sockets s' = sockets s + n"
proof (induction n arbitrary: s)
  case (Suc n)
  have "\<exists>s1. fw_run K D N leak_cycle s = Some s1 \<and> tcp_at s1 = Accepting \<and> \<not> aborted s1 \<and> sockets s1 = Suc (sockets s)"
    using Suc.prems by (simp add: leak_cycle_def fw_do_def leave_open_def Let_def)
  then obtain s1 where s1: "fw_run K D N leak_cycle s = Some s1" "tcp_at s1 = Accepting" "\<not> aborted s1" "sockets s1 = Suc (sockets s)"
    by blast
  from Suc.IH [OF s1(2,3)] s1(4) Suc.prems show ?case by (auto simp: fw_run_append s1(1))
qed simp

lemma exhausted_step:
  "fw_step K D N s s' \<Longrightarrow> tcp_at s = Accepting \<and> sockets s = N \<Longrightarrow> tcp_at s' = Accepting \<and> sockets s' = N"
  by (cases rule: fw_step.cases) auto

lemma exhausted_forever:
  assumes "fw_run K D N as s = Some s'" and "tcp_at s = Accepting \<and> sockets s = N"
  shows "AcceptOk \<notin> set as \<and> tcp_at s' = Accepting"
  using assms
proof (induction "as" arbitrary: s)
  case (Cons a "as")
  from Cons.prems(1) obtain s1 where s1: "fw_do K D N a s = Some s1" "fw_run K D N as s1 = Some s'" by (auto split: option.splits)
  have "a \<noteq> AcceptOk" using s1(1) Cons.prems(2) by (auto simp: fw_do_def split: if_splits)
  with Cons.IH [OF s1(2) exhausted_step [OF fw_do_step [OF s1(1)] Cons.prems(2)]] show ?case by simp
qed simp

section \<open>Properties\<close>

lemma out_message_wire: "out_ok m \<Longrightarrow> DeviceMessage_wf (out_message m) \<and> fw_wire m = device_wire (out_message m)"
proof -
  assume ok: "out_ok m"
  have "take 1 (body m) = [body m ! 0]" if "length (body m) = 255"
    using that by (cases "body m") auto
  with ok show "DeviceMessage_wf (out_message m) \<and> fw_wire m = device_wire (out_message m)"
    by (auto simp: out_ok_def Message_ok_def out_message_def fw_wire_def device_wire_def fw_defs MAX_MESSAGE_LEN_def)
qed

lemma fw_wires: "list_all out_ok ms \<Longrightarrow>
    list_all DeviceMessage_wf (map out_message ms) \<and> concat (map fw_wire ms) = concat (map device_wire (map out_message ms))"
  by (induction ms) (simp_all add: out_message_wire)

text \<open>The data among what a client is sent.\<close>

fun is_data :: "DeviceMessage \<Rightarrow> bool" where
  "is_data (Data _ _) = True"
| "is_data _ = False"

lemma out_data:
  assumes "list_all out_ok ms"
  shows "concat (map payload (filter is_data (map normalise (map out_message ms)))) = concat (map data_of ms)"
  using assms
proof (induction ms)
  case (Cons m ms)
  then have "concat (map payload (filter is_data [normalise (out_message m)])) = data_of m"
    by (auto simp: out_ok_def out_message_def data_of_def Message_ok_def MAX_MESSAGE_BODY_SIZE_def)
  with Cons show ?case by (auto split: if_splits)
qed simp

lemma popped_ok: "fw_inv K D s \<Longrightarrow> list_all out_ok (drop (h_base s) (h_popped s))"
  using set_drop_subset [of "h_base s" "h_popped s"] by (auto simp: fw_inv_def inv_out_def to_client_def list_all_iff)

lemma sent_wire:
  assumes "fw_inv K D s" and "tcp_at s \<noteq> Accepting"
  shows "h_sent s = concat (map device_wire (map out_message (drop (h_base s) (h_popped s))))"
  using assms fw_wires [OF popped_ok [OF assms(1)]] by (simp add: fw_inv_def inv_client_def)

lemma arrived_split:
  assumes "fw_inv K D s"
  shows "h_arrived s = concat (map data_of (take (h_base s) (h_popped s))) @ concat (map data_of (drop (h_base s) (h_popped s))) @
    concat (map data_of (uart_to_tcp_queue s @ rx_pending s)) @ rx_buffer s"
proof -
  have "h_arrived s = concat (map data_of (h_popped s)) @ concat (map data_of (uart_to_tcp_queue s @ rx_pending s)) @ rx_buffer s"
    using assms by (simp add: fw_inv_def inv_uart_def to_client_def)
  then show ?thesis by (metis append.assoc append_take_drop_id concat_append map_append)
qed

text \<open>A run for the witnesses: a client asks for a reset while two bytes arrive at the UART.\<close>

definition demo_fw_acts :: "fw_act list" where
  "demo_fw_acts = [AcceptOk, Select True, ReadMsg reset_message, Forward, Arrive [7, 8], UartEvent UART_DATA, RxEvent,
     RxRead demo_buffer 2, TxTake demo_buffer, RxSend, TxSend, RxSignal, TxSignal]"

definition demo_fw :: fw where
  "demo_fw = the (fw_run demo_kconfig (\<lambda>_. True) 1 demo_fw_acts fw_init)"

lemma demo_fw_run: "fw_run demo_kconfig (\<lambda>_. True) 1 demo_fw_acts fw_init = Some demo_fw"
proof -
  have "fw_run demo_kconfig (\<lambda>_. True) 1 demo_fw_acts fw_init \<noteq> None" by code_simp
  then show ?thesis by (auto simp: demo_fw_def)
qed

definition demo_fw_sending :: fw where
  "demo_fw_sending = the (fw_run demo_kconfig (\<lambda>_. True) 1 (demo_fw_acts @ [Select False, ReadEfd, Drain SendOk]) fw_init)"

lemma demo_fw_sending_run:
  "fw_run demo_kconfig (\<lambda>_. True) 1 (demo_fw_acts @ [Select False, ReadEfd, Drain SendOk]) fw_init = Some demo_fw_sending"
proof -
  have "fw_run demo_kconfig (\<lambda>_. True) 1 (demo_fw_acts @ [Select False, ReadEfd, Drain SendOk]) fw_init \<noteq> None" by code_simp
  then show ?thesis by (auto simp: demo_fw_sending_def)
qed

text \<open>C10. From the client to the UART: in every run of the firmware, the messages the transmit task has handled are
  those read from the clients, in the same order and without loss or repetition; at most 17 are still on their way
  (16 in the queue, one held by the TCP task). What the UART and the reset pin have seen are exactly the driver
  calls of these messages, one after the other.\<close>

theorem firmware_downstream:
  assumes "fw_run K D N as fw_init = Some s"
  shows "\<exists>waiting. h_read s = h_taken s @ waiting \<and> length waiting \<le> 17 \<and>
    h_calls s = concat (map (message_calls K D) (h_taken s))"
proof -
  have "fw_inv K D s" using assms by (rule fw_reach_inv)
  then show ?thesis
    by (intro exI [of _ "tcp_to_uart_queue s @ forward_pending s"])
       (auto simp: fw_inv_def inv_forward_def inv_calls_def inv_bounds_def TCP_TO_UART_DEPTH_def forward_pending_def
         split: tcp_pc.splits)
qed

theorem firmware_downstream_witness:
  "\<exists>waiting. h_read demo_fw = h_taken demo_fw @ waiting \<and> length waiting \<le> 17 \<and>
    h_calls demo_fw = concat (map (message_calls demo_kconfig (\<lambda>_. True)) (h_taken demo_fw))"
  by (rule firmware_downstream [OF demo_fw_run])

text \<open>C11. From the UART to the client: in every run, the bytes received on the UART are, in order and without loss, those
  of the data messages put into the queue to the client, followed by at most one more message and what is still in the
  driver's buffer; the response statuses put there are exactly the answers to the control requests handled so far,
  in order, except for one that waits for room. While a client is connected, what it has been sent are whole messages, those
  taken from the queue since it connected, and the daemon's decoder gives exactly these messages, however the network
  cuts them.\<close>

theorem firmware_upstream:
  assumes "bytes_crate B" and "fw_run K D N as fw_init = Some s"
  shows "h_arrived s = concat (map data_of (to_client s @ rx_pending s)) @ rx_buffer s \<and> length (rx_pending s) \<le> 1 \<and>
    concat (map (answers K) (h_taken s)) = concat (map status_of (to_client s @ tx_pending s)) \<and> length (tx_pending s) \<le> 1 \<and>
    (tcp_at s = Accepting \<or>
     (\<forall>chunks. concat chunks = h_sent s \<longrightarrow> receive (DeviceCodec_decode B) [] chunks
        = (map normalise (map out_message (drop (h_base s) (h_popped s))), Waiting [])))"
proof -
  have inv: "fw_inv K D s" using assms(2) by (rule fw_reach_inv)
  have "receive (DeviceCodec_decode B) [] chunks
      = (map normalise (map out_message (drop (h_base s) (h_popped s))), Waiting [])"
    if "concat chunks = h_sent s" "tcp_at s \<noteq> Accepting" for chunks
  proof -
    from fw_wires [OF popped_ok [OF inv]] sent_wire [OF inv that(2)] that(1) show ?thesis
      by (intro device_receive_whole [OF assms(1)]) simp_all
  qed
  moreover have "length (rx_pending s) \<le> 1" "length (tx_pending s) \<le> 1"
    by (simp_all add: rx_pending_def tx_pending_def split: rx_pc.split tx_pc.split)
  ultimately show ?thesis using inv by (auto simp: fw_inv_def inv_uart_def inv_answers_def)
qed

lemma concat_single: "concat [xs] = xs"
  by simp

theorem firmware_upstream_witness:
  "h_arrived demo_fw_sending = concat (map data_of (to_client demo_fw_sending @ rx_pending demo_fw_sending)) @ rx_buffer demo_fw_sending \<and>
   (tcp_at demo_fw_sending = Accepting \<or>
    receive (DeviceCodec_decode bytes_ref) [] [h_sent demo_fw_sending]
      = (map normalise (map out_message (drop (h_base demo_fw_sending) (h_popped demo_fw_sending))), Waiting []))"
  using firmware_upstream [OF ref.bytes_crate_axioms demo_fw_sending_run] concat_single by blast

text \<open>C27. Queued messages reach the client: in any run in which no send has failed, whenever a client is connected, the
  TCP task waits in \<open>select\<close>, no task is about to signal and messages are queued, then the event descriptor is
  ready, and going on as the code does sends every queued message, whole and in order.\<close>

theorem firmware_delivers:
  assumes "fw_run K D N as fw_init = Some s" and "\<not> aborted s" and "tcp_at s = Selecting" and "uart_to_tcp_queue s \<noteq> []"
    and "tx_at s \<noteq> TxSignalling" and "rx_at s \<noteq> RxSignalling" and "\<not> h_send_failed s"
  shows "\<exists>s'. fw_run K D N ([Select False, ReadEfd] @
      replicate (length (uart_to_tcp_queue s)) (Drain SendOk) @ [Drain SendOk]) s = Some s' \<and>
    tcp_at s' = Selecting \<and> uart_to_tcp_queue s' = [] \<and> h_sent s' = h_sent s @ concat (map fw_wire (uart_to_tcp_queue s))"
proof -
  have efd: "0 < uart_to_tcp_efd s" using fw_reach_wake [OF assms(1)] assms by (simp add: inv_wake_def)
  let ?s = "s\<lparr>tcp_at := Draining, uart_to_tcp_efd := 0\<rparr>"
  have "fw_run K D N [Select False, ReadEfd] s = Some ?s"
    using assms efd by (simp add: fw_do_def Let_def)
  with drain_all [of ?s K D N] assms(2) show ?thesis by (simp only: fw_run_append option.case) simp
qed

lemma demo_fw_facts:
  "\<not> aborted demo_fw" "tcp_at demo_fw = Selecting" "uart_to_tcp_queue demo_fw \<noteq> []" "tx_at demo_fw \<noteq> TxSignalling"
  "rx_at demo_fw \<noteq> RxSignalling" "\<not> h_send_failed demo_fw"
  by code_simp+

theorem firmware_delivers_witness:
  "\<exists>s'. fw_run demo_kconfig (\<lambda>_. True) 1 ([Select False, ReadEfd] @
      replicate (length (uart_to_tcp_queue demo_fw)) (Drain SendOk) @ [Drain SendOk]) demo_fw = Some s' \<and>
    tcp_at s' = Selecting \<and> uart_to_tcp_queue s' = [] \<and> h_sent s' = h_sent demo_fw @ concat (map fw_wire (uart_to_tcp_queue demo_fw))"
  by (rule firmware_delivers [OF demo_fw_run demo_fw_facts])

definition forgotten_acts :: "fw_act list" where
  "forgotten_acts = demo_fw_acts @ [RxRead demo_buffer 0, Select False, ReadEfd, Drain SendHeaderFailed, AcceptOk]"


text \<open>C28. A defect of the firmware: it can lock up. When the queue to the client has filled up while the TCP task waits for
  room in the queue to the transmit task, a control request makes the transmit task wait for the TCP task and the
  two wait for each other. This state is reached from the start, whatever the build options and the drivers, and
  no action of the client, the UART or any task ever leaves it: no message is handled and nothing is sent any more.\<close>

theorem firmware_deadlock:
  assumes "0 < N"
  shows "\<exists>s. fw_run K D N deadlock_acts fw_init = Some s \<and> deadlocked s \<and>
    (\<forall>as s'. fw_run K D N as s = Some s' \<longrightarrow> deadlocked s' \<and> h_calls s' = h_calls s \<and> h_sent s' = h_sent s)"
proof -
  from deadlock_reached [OF assms] obtain s where "fw_run K D N deadlock_acts fw_init = Some s" "deadlocked s" by blast
  then show ?thesis using deadlocked_forever by blast
qed

theorem firmware_deadlock_witness:
  "\<exists>s. fw_run demo_kconfig (\<lambda>_. True) 10 deadlock_acts fw_init = Some s \<and> deadlocked s"
  using firmware_deadlock [of 10 demo_kconfig "\<lambda>_. True"] by auto

text \<open>C29. A defect of the firmware: a client that closes its connection costs a socket. \<open>handle_client\<close> leaves its loop without
  closing the socket, so that after as many clients as the network stack has sockets no client is accepted any more.\<close>

theorem firmware_stops_accepting:
  "\<exists>s. fw_run K D N (concat (replicate N leak_cycle)) fw_init = Some s \<and> h_leaked s = N \<and>
    (\<forall>as s'. fw_run K D N as s = Some s' \<longrightarrow> AcceptOk \<notin> set as \<and> tcp_at s' = Accepting)"
proof -
  have "tcp_at fw_init = Accepting" "\<not> aborted fw_init" "sockets fw_init + N \<le> N" by (simp_all add: fw_init_def)
  from leak_cycles_run [OF this, of K D] obtain s where
    s: "fw_run K D N (concat (replicate N leak_cycle)) fw_init = Some s" "tcp_at s = Accepting" "sockets s = N"
    by (auto simp: fw_init_def)
  with fw_reach_inv [OF s(1)] exhausted_forever show ?thesis by (fastforce simp: fw_inv_def inv_sockets_def)
qed

theorem firmware_stops_accepting_witness:
  "\<exists>s. fw_run demo_kconfig (\<lambda>_. True) 10 (concat (replicate 10 leak_cycle)) fw_init = Some s \<and> h_leaked s = 10"
  using firmware_stops_accepting [of demo_kconfig "\<lambda>_. True" 10] by blast

end
