(* ===== verification/Fw_Wifi.thy ===== *)
theory Fw_Wifi
  imports Fw_Status
begin

text \<open>
  The Wi-Fi station of the firmware (\<open>server/main/wifi.c\<close>): the event handler that goes through the configured
  networks, and the end of \<open>wifi_init\<close>, which waits for its result. The start of \<open>wifi_init\<close> (flash, network
  interface, registration of the handler) only calls libraries.

  The Wi-Fi driver is outside: it posts events. What it may post is known from the state of the link: a
  disconnection or an address only while it is connecting or connected. An event that cannot come now is
  \<open>Suspended\<close>, an index outside the array of networks is \<open>Panicked\<close>. The networks and the number of retries are
  build options and arguments here.
\<close>

section \<open>State\<close>

type_synonym wifi_cred_t = "u8 list \<times> u8 list" \<comment> \<open>ssid and password\<close>

datatype wifi_event = WIFI_EVENT_STA_START | WIFI_EVENT_STA_DISCONNECTED | IP_EVENT_STA_GOT_IP | OTHER_EVENT

datatype link = NotStarted | Down | Connecting | Up

datatype main_pc = InWifiInit | Continued | Restarting

datatype wifi_effect = Connect wifi_cred_t | Report StatusUpdateMessage

record wifi =
  s_retry_count :: int
  s_current_wifi_idx :: nat
  CONNECTED_BIT :: bool
  FAILED_BIT :: bool
  main_task :: main_pc
  link_state :: link

definition wifi_start :: wifi where
  "wifi_start = \<lparr>s_retry_count = 0, s_current_wifi_idx = 0, CONNECTED_BIT = False, FAILED_BIT = False,
     main_task = InWifiInit, link_state = NotStarted\<rparr>"

section \<open>The handler\<close>

definition wifi_report :: "kconfig \<Rightarrow> StatusUpdateMessage \<Rightarrow> wifi_effect list" where
  "wifi_report K m = (if ESP_STATUS_LED_ENABLED K then [Report m] else [])"

definition update_config_and_connect ::
  "kconfig \<Rightarrow> wifi_cred_t list \<Rightarrow> wifi \<Rightarrow> (wifi \<times> wifi_effect list) outcome" where
  "update_config_and_connect K s_wifi_networks w =
     (if s_current_wifi_idx w < length s_wifi_networks
      then Done (w\<lparr>link_state := Connecting\<rparr>,
             wifi_report K STATUS_WIFI_CONNECTING @ [Connect (s_wifi_networks ! s_current_wifi_idx w)])
      else Panicked)"

definition event_handler ::
  "kconfig \<Rightarrow> wifi_cred_t list \<Rightarrow> int \<Rightarrow> wifi_event \<Rightarrow> wifi \<Rightarrow> (wifi \<times> wifi_effect list) outcome" where
  "event_handler K s_wifi_networks MAX_RETRIES ev w =
     (case ev of
        WIFI_EVENT_STA_START \<Rightarrow> update_config_and_connect K s_wifi_networks w
      | WIFI_EVENT_STA_DISCONNECTED \<Rightarrow>
          (let report = wifi_report K STATUS_WIFI_CONNECTION_FAILED;
               connect = (\<lambda>w. case update_config_and_connect K s_wifi_networks w of
                                Done (w', es) \<Rightarrow> Done (w', report @ es) | r \<Rightarrow> r);
               w1 = w\<lparr>s_current_wifi_idx := Suc (s_current_wifi_idx w)\<rparr>
           in if s_current_wifi_idx w1 \<ge> length s_wifi_networks then
                (let w2 = w1\<lparr>s_current_wifi_idx := 0, s_retry_count := s_retry_count w1 + 1\<rparr>
                 in if s_retry_count w2 = MAX_RETRIES then Done (w2\<lparr>FAILED_BIT := True\<rparr>, report)
                    else connect w2)
              else connect w1)
      | IP_EVENT_STA_GOT_IP \<Rightarrow> Done (w\<lparr>s_retry_count := 0, CONNECTED_BIT := True\<rparr>, [])
      | OTHER_EVENT \<Rightarrow> Done (w, []))"

text \<open>The end of \<open>wifi_init\<close>: once one of the bits is set, the main task goes on, or restarts the chip.\<close>

definition wifi_init_wake :: "kconfig \<Rightarrow> wifi \<Rightarrow> (wifi \<times> wifi_effect list) outcome" where
  "wifi_init_wake K w =
     (if main_task w = InWifiInit \<and> (CONNECTED_BIT w \<or> FAILED_BIT w) then
        (if CONNECTED_BIT w then Done (w\<lparr>main_task := Continued\<rparr>, wifi_report K STATUS_WIFI_CONNECTED)
         else Done (w\<lparr>main_task := Restarting\<rparr>, wifi_report K STATUS_WIFI_RETRIES_FAILED))
      else Suspended)"

section \<open>Steps\<close>

datatype wifi_act = DriverEvent wifi_event | MainWakes

text \<open>Which events the driver may post, and the state of the link when the handler is called.\<close>

fun link_after :: "wifi_event \<Rightarrow> link \<Rightarrow> link option" where
  "link_after WIFI_EVENT_STA_START l = (if l = NotStarted then Some Down else None)"
| "link_after WIFI_EVENT_STA_DISCONNECTED l = (if l = Connecting \<or> l = Up then Some Down else None)"
| "link_after IP_EVENT_STA_GOT_IP l = (if l = Connecting \<or> l = Up then Some Up else None)"
| "link_after OTHER_EVENT l = Some l"

definition wifi_step ::
  "kconfig \<Rightarrow> wifi_cred_t list \<Rightarrow> int \<Rightarrow> wifi \<Rightarrow> wifi_act \<Rightarrow> (wifi \<times> wifi_effect list) outcome" where
  "wifi_step K s_wifi_networks MAX_RETRIES w a =
     (case a of
        DriverEvent ev \<Rightarrow>
          (case link_after ev (link_state w) of
             None \<Rightarrow> Suspended
           | Some l \<Rightarrow>
               if main_task w = Restarting then Suspended
               else event_handler K s_wifi_networks MAX_RETRIES ev (w\<lparr>link_state := l\<rparr>))
      | MainWakes \<Rightarrow> wifi_init_wake K w)"

fun wifi_run ::
  "kconfig \<Rightarrow> wifi_cred_t list \<Rightarrow> int \<Rightarrow> wifi \<Rightarrow> wifi_act list \<Rightarrow> (wifi \<times> wifi_effect list) outcome" where
  "wifi_run K nets M w [] = Done (w, [])"
| "wifi_run K nets M w (a # as) =
     (case wifi_step K nets M w a of
        Done (w', es) \<Rightarrow>
          (case wifi_run K nets M w' as of Done (w'', es') \<Rightarrow> Done (w'', es @ es') | r \<Rightarrow> r)
      | r \<Rightarrow> r)"

section \<open>Invariant\<close>

text \<open>
  The index stays within the array; the retries are below their limit as long as the station is trying, and
  once the limit is reached the link is down for good.
\<close>

definition wifi_inv :: "wifi_cred_t list \<Rightarrow> int \<Rightarrow> wifi \<Rightarrow> bool" where
  "wifi_inv nets M w \<longleftrightarrow>
     0 < length nets \<and> 0 < M \<and> s_current_wifi_idx w < length nets \<and> 0 \<le> s_retry_count w \<and> s_retry_count w \<le> M \<and>
     (s_retry_count w = M \<longrightarrow> link_state w = Down \<and> FAILED_BIT w) \<and>
     (link_state w = NotStarted \<longrightarrow> s_retry_count w = 0)"

interpretation station: task_loop "wifi_step K nets M" "\<lambda>_. True" "wifi_inv nets M" for K nets M
proof
  fix w a w' es
  assume inv: "wifi_inv nets M w"
  show "wifi_inv nets M w'" if "wifi_step K nets M w a = Done (w', es)"
    using inv that
    by (auto simp: wifi_inv_def wifi_step_def event_handler_def update_config_and_connect_def wifi_init_wake_def Let_def
        split: wifi_act.splits wifi_event.splits if_splits option.splits)
  show "wifi_step K nets M w a \<noteq> Panicked"
    using inv
    by (auto simp: wifi_inv_def wifi_step_def event_handler_def update_config_and_connect_def wifi_init_wake_def Let_def
        split: wifi_act.splits wifi_event.splits option.splits)
qed

lemma wifi_run_station: "wifi_run K nets M w as = station.run K nets M w as"
  by (induction "as" arbitrary: w) (simp_all split: outcome.split)

lemma wifi_run_append:
  "wifi_run K nets M w (as @ bs) =
     (case wifi_run K nets M w as of
        Done (w', es) \<Rightarrow> (case wifi_run K nets M w' bs of Done (w'', es') \<Rightarrow> Done (w'', es @ es') | r \<Rightarrow> r)
      | r \<Rightarrow> r)"
  by (induction "as" arbitrary: w) (simp_all split: outcome.split)

lemma wifi_start_inv: "nets \<noteq> [] \<Longrightarrow> 0 < M \<Longrightarrow> wifi_inv nets M wifi_start"
  by (simp add: wifi_inv_def wifi_start_def)

section \<open>Going through the networks\<close>

text \<open>The networks the station tried.\<close>

fun connect_1 :: "wifi_effect \<Rightarrow> wifi_cred_t list" where
  "connect_1 (Connect c) = [c]"
| "connect_1 (Report _) = []"

definition connects :: "wifi_effect list \<Rightarrow> wifi_cred_t list" where
  "connects es = concat (map connect_1 es)"

lemma connects_simps [simp]:
  "connects [] = []" "connects (es @ fs) = connects es @ connects fs" "connects (Connect c # es) = c # connects es"
  "connects (Report m # es) = connects es" "connects (wifi_report K m) = []"
  by (simp_all add: connects_def wifi_report_def)

text \<open>
  With the index and the retries as one counter \<open>c\<close> of attempts: a disconnection moves on to the next one, until
  the last of the last round.
\<close>

definition attempt :: "wifi_cred_t list \<Rightarrow> nat \<Rightarrow> wifi \<Rightarrow> bool" where
  "attempt nets c w \<longleftrightarrow> s_current_wifi_idx w = c mod length nets \<and> s_retry_count w = int (c div length nets) \<and>
     link_state w \<in> {Connecting, Up} \<and> main_task w \<noteq> Restarting"

abbreviation disconnected :: wifi_act where
  "disconnected \<equiv> DriverEvent WIFI_EVENT_STA_DISCONNECTED"

lemma attempt_next:
  assumes "attempt nets c w" and "nets \<noteq> []" and "Suc c < M * length nets"
  shows "\<exists>w' es. wifi_step K nets (int M) w disconnected = Done (w', es) \<and> attempt nets (Suc c) w' \<and>
    connects es = [nets ! (Suc c mod length nets)] \<and> main_task w' = main_task w \<and> CONNECTED_BIT w' = CONNECTED_BIT w"
proof -
  have n: "0 < length nets" using assms(2) by simp
  show ?thesis
  proof (cases "Suc (c mod length nets) = length nets")
    case True
    have d: "Suc c mod length nets = 0" "Suc c div length nets = Suc (c div length nets)"
      using True by (simp_all add: mod_Suc div_Suc)
    have "Suc c div length nets < M" using assms(3) n by (simp add: less_mult_imp_div_less)
    with d True assms(1) n show ?thesis
      by (auto simp: attempt_def wifi_step_def event_handler_def update_config_and_connect_def Let_def)
  next
    case False
    have "c mod length nets < length nets" using n by simp
    with False have lt: "Suc (c mod length nets) < length nets" by simp
    then have "Suc c mod length nets = Suc (c mod length nets)" "Suc c div length nets = c div length nets"
      by (simp_all add: mod_Suc div_Suc)
    with lt assms(1) show ?thesis
      by (auto simp: attempt_def wifi_step_def event_handler_def update_config_and_connect_def Let_def)
  qed
qed

lemma attempt_last:
  assumes "attempt nets c w" and "nets \<noteq> []" and "Suc c = M * length nets"
  shows "\<exists>w' es. wifi_step K nets (int M) w disconnected = Done (w', es) \<and> link_state w' = Down \<and> FAILED_BIT w' \<and>
    CONNECTED_BIT w' = CONNECTED_BIT w \<and> connects es = [] \<and> main_task w' = main_task w"
proof -
  have n: "0 < length nets" using assms(2) by simp
  have "Suc c mod length nets = 0" by (simp add: assms(3))
  then have m: "Suc (c mod length nets) = length nets" by (simp add: mod_Suc split: if_splits)
  then have "Suc (c div length nets) = Suc c div length nets" by (simp add: div_Suc mod_Suc)
  also have "\<dots> = M" using n by (simp add: assms(3))
  finally have "int (c div length nets) + 1 = int M" by simp
  with m assms(1) n show ?thesis
    by (auto simp: attempt_def wifi_step_def event_handler_def Let_def)
qed

lemma attempts_run:
  assumes "nets \<noteq> []"
  shows "attempt nets c w \<Longrightarrow> c + k < M * length nets \<Longrightarrow>
    \<exists>w' es. wifi_run K nets (int M) w (replicate k disconnected) = Done (w', es) \<and> attempt nets (c + k) w' \<and>
      connects es = map (\<lambda>i. nets ! (i mod length nets)) [Suc c..<Suc c + k] \<and> main_task w' = main_task w \<and>
      CONNECTED_BIT w' = CONNECTED_BIT w"
proof (induction k arbitrary: c w)
  case (Suc k)
  then have "Suc c < M * length nets" by simp
  from attempt_next [OF Suc.prems(1) assms this, of K] obtain w1 es1 where
    w1: "wifi_step K nets (int M) w disconnected = Done (w1, es1)" "attempt nets (Suc c) w1"
    "connects es1 = [nets ! (Suc c mod length nets)]" "main_task w1 = main_task w" "CONNECTED_BIT w1 = CONNECTED_BIT w" by blast
  from Suc.IH [OF w1(2)] Suc.prems(2) obtain w' es where
    "wifi_run K nets (int M) w1 (replicate k disconnected) = Done (w', es)" "attempt nets (Suc c + k) w'"
    "connects es = map (\<lambda>i. nets ! (i mod length nets)) [Suc (Suc c)..<Suc (Suc c) + k]" "main_task w' = main_task w1"
    "CONNECTED_BIT w' = CONNECTED_BIT w1"
    by auto
  moreover have "[Suc c..<Suc c + Suc k] = Suc c # [Suc (Suc c)..<Suc (Suc c) + k]" by (simp add: upt_conv_Cons del: upt_Suc)
  ultimately show ?case using w1 by (simp del: upt_Suc)
qed simp

lemma all_attempts:
  assumes "nets \<noteq> []" and "0 < M" and "attempt nets 0 w"
  shows "\<exists>w' es. wifi_run K nets (int M) w (replicate (M * length nets) disconnected) = Done (w', es) \<and>
    link_state w' = Down \<and> FAILED_BIT w' \<and> CONNECTED_BIT w' = CONNECTED_BIT w \<and> main_task w' = main_task w \<and>
    connects es = map (\<lambda>i. nets ! (i mod length nets)) [1..<M * length nets]"
proof -
  obtain k where k: "M * length nets = Suc k" using assms(1,2) by (cases "M * length nets") auto
  with attempts_run [OF assms(1,3), of k M K] obtain w1 es1 where
    w1: "wifi_run K nets (int M) w (replicate k disconnected) = Done (w1, es1)" "attempt nets k w1"
    "connects es1 = map (\<lambda>i. nets ! (i mod length nets)) [1..<Suc k]" "main_task w1 = main_task w" "CONNECTED_BIT w1 = CONNECTED_BIT w"
    by auto
  from attempt_last [OF w1(2) assms(1) k [symmetric], of K] obtain w' es where
    w': "wifi_step K nets (int M) w1 disconnected = Done (w', es)" "link_state w' = Down" "FAILED_BIT w'"
    "CONNECTED_BIT w' = CONNECTED_BIT w1" "connects es = []" "main_task w' = main_task w1" by blast
  have "replicate (Suc k) disconnected = replicate k disconnected @ [disconnected]" by (simp add: replicate_append_same)
  with w1 w' show ?thesis by (simp add: k wifi_run_append del: replicate_Suc)
qed

lemma attempts_rounds: "nets \<noteq> [] \<Longrightarrow> map (\<lambda>i. nets ! (i mod length nets)) [0..<M * length nets] = concat (replicate M nets)"
proof (induction M)
  case (Suc M)
  have "[0..<Suc M * length nets] = [0..<M * length nets] @ map (\<lambda>i. M * length nets + i) [0..<length nets]"
    using upt_add_eq_append [of 0 "M * length nets" "length nets"] map_add_upt [of "M * length nets" "length nets"]
    by (simp add: add.commute)
  moreover have "map (\<lambda>i. nets ! ((M * length nets + i) mod length nets)) [0..<length nets] = nets"
    by (rule nth_equalityI) (simp_all add: add.commute)
  ultimately show ?case using Suc by (simp add: comp_def flip: replicate_append_same)
qed simp

section \<open>Properties\<close>

text \<open>The station never leaves its array of networks and never counts beyond its limit, whatever the driver reports
  in whatever order.\<close>

lemma wifi_safe:
  assumes "nets \<noteq> []" and "0 < M"
  shows "wifi_run K nets M wifi_start as \<noteq> Panicked \<and>
    (\<forall>w es. wifi_run K nets M wifi_start as = Done (w, es) \<longrightarrow>
       s_current_wifi_idx w < length nets \<and> 0 \<le> s_retry_count w \<and> s_retry_count w \<le> M)"
  using station.run_safe [OF wifi_start_inv [OF assms], of "as" K] station.run_inv [OF wifi_start_inv [OF assms], of "as" K]
  by (auto simp: wifi_run_station wifi_inv_def list_all_iff)

definition demo_nets :: "wifi_cred_t list" where
  "demo_nets = [([1], [2]), ([3], [4])]"

lemma demo_nets_ok: "demo_nets \<noteq> []"
  by (simp add: demo_nets_def)

text \<open>C34. As long as no network answers, the station tries every configured network in order, \<open>MAX_RETRIES\<close> times over,
  and then the main task restarts the chip.\<close>

theorem wifi_gives_up:
  assumes "nets \<noteq> []" and "0 < M"
  shows "\<exists>w es. wifi_run K nets (int M) wifi_start
      (DriverEvent WIFI_EVENT_STA_START # replicate (M * length nets) disconnected @ [MainWakes]) = Done (w, es) \<and>
    connects es = concat (replicate M nets) \<and> main_task w = Restarting"
proof -
  let ?w = "wifi_start\<lparr>link_state := Connecting\<rparr>"
  have start: "wifi_step K nets (int M) wifi_start (DriverEvent WIFI_EVENT_STA_START)
      = Done (?w, wifi_report K STATUS_WIFI_CONNECTING @ [Connect (nets ! 0)])"
    using assms by (simp add: wifi_step_def event_handler_def update_config_and_connect_def wifi_start_def)
  have "attempt nets 0 ?w" by (simp add: attempt_def wifi_start_def)
  from all_attempts [OF assms this, of K] obtain w es where
    w: "wifi_run K nets (int M) ?w (replicate (M * length nets) disconnected) = Done (w, es)" "FAILED_BIT w" "\<not> CONNECTED_BIT w"
    "main_task w = InWifiInit" "connects es = map (\<lambda>i. nets ! (i mod length nets)) [1..<M * length nets]"
    by (auto simp: wifi_start_def)
  have "0 < M * length nets" using assms by simp
  then have "concat (replicate M nets) = nets ! 0 # connects es"
    unfolding attempts_rounds [OF assms(1), symmetric] w(5) by (simp add: upt_conv_Cons)
  with start w show ?thesis by (simp add: wifi_run_append wifi_step_def [of _ _ _ w] wifi_init_wake_def)
qed

theorem wifi_gives_up_witness:
  "\<exists>w es. wifi_run demo_kconfig demo_nets (int 2) wifi_start
      (DriverEvent WIFI_EVENT_STA_START # replicate (2 * length demo_nets) disconnected @ [MainWakes]) = Done (w, es) \<and>
    connects es = concat (replicate 2 demo_nets) \<and> main_task w = Restarting"
  by (rule wifi_gives_up [OF demo_nets_ok]) simp

lemma dead_link_step:
  assumes "link_state w = Down \<and> main_task w = Continued" and "wifi_step K nets M w a = Done (w', es)"
  shows "(link_state w' = Down \<and> main_task w' = Continued) \<and> connects es = []"
  using assms by (cases a) (auto simp: wifi_step_def event_handler_def wifi_init_wake_def split: option.splits if_splits
      wifi_event.splits elim!: link_after.elims)

lemma dead_link_run:
  "link_state w = Down \<and> main_task w = Continued \<Longrightarrow> wifi_run K nets M w as = Done (w', es) \<Longrightarrow>
    link_state w' = Down \<and> main_task w' = Continued \<and> connects es = []"
proof (induction "as" arbitrary: w es)
  case (Cons a "as")
  from Cons.prems(2) obtain w1 es1 es2 where "wifi_step K nets M w a = Done (w1, es1)"
    "wifi_run K nets M w1 as = Done (w', es2)" "es = es1 @ es2" by (auto split: outcome.splits)
  with dead_link_step [OF Cons.prems(1)] Cons.IH [of w1 es2] show ?case by auto
qed simp

text \<open>C35. A defect of the firmware: once the station has been connected, nobody waits for its result any more. When the
  connection is lost and all networks have been tried \<open>MAX_RETRIES\<close> times, the handler gives up, the chip is not
  restarted, and the station never tries to connect again, whatever happens afterwards.\<close>

theorem wifi_never_reconnects:
  assumes "nets \<noteq> []" and "0 < M"
  shows "\<exists>w es. wifi_run K nets (int M) wifi_start
      ([DriverEvent WIFI_EVENT_STA_START, DriverEvent IP_EVENT_STA_GOT_IP, MainWakes] @
       replicate (M * length nets) disconnected) = Done (w, es) \<and> FAILED_BIT w \<and>
    (\<forall>as w' es'. wifi_run K nets (int M) w as = Done (w', es') \<longrightarrow>
       link_state w' = Down \<and> main_task w' = Continued \<and> connects es' = [])"
proof -
  let ?w = "wifi_start\<lparr>link_state := Up, CONNECTED_BIT := True, main_task := Continued\<rparr>"
  have "\<exists>es. wifi_run K nets (int M) wifi_start
      [DriverEvent WIFI_EVENT_STA_START, DriverEvent IP_EVENT_STA_GOT_IP, MainWakes] = Done (?w, es)"
    using assms by (simp add: wifi_step_def event_handler_def update_config_and_connect_def wifi_init_wake_def wifi_start_def)
  then obtain es0 where start: "wifi_run K nets (int M) wifi_start
      [DriverEvent WIFI_EVENT_STA_START, DriverEvent IP_EVENT_STA_GOT_IP, MainWakes] = Done (?w, es0)" by blast
  have "attempt nets 0 ?w" by (simp add: attempt_def wifi_start_def)
  from all_attempts [OF assms this, of K] obtain w es where
    w: "wifi_run K nets (int M) ?w (replicate (M * length nets) disconnected) = Done (w, es)" "FAILED_BIT w"
    "link_state w = Down" "main_task w = Continued"
    by (auto simp: wifi_start_def)
  then have dead: "link_state w = Down \<and> main_task w = Continued" by simp
  show ?thesis
    unfolding wifi_run_append start outcome.case prod.case w(1) using w(2) dead_link_run [OF dead] by simp
qed

theorem wifi_never_reconnects_witness:
  "\<exists>w es. wifi_run demo_kconfig demo_nets (int 5) wifi_start
      ([DriverEvent WIFI_EVENT_STA_START, DriverEvent IP_EVENT_STA_GOT_IP, MainWakes] @
       replicate (5 * length demo_nets) disconnected) = Done (w, es) \<and> FAILED_BIT w"
  using wifi_never_reconnects [OF demo_nets_ok, of 5 demo_kconfig] by auto

end
