(* ===== verification/Fw_Setup.thy ===== *)
theory Fw_Setup
  imports Fw_System Fw_Wifi
begin

text \<open>
  What the tasks of the firmware do before their loops: the start of \<open>uart_rx_task\<close> (\<open>uart.c\<close>) and of \<open>tcp_task\<close>
  (\<open>tcp.c\<close>), and of \<open>wifi_init\<close> (\<open>wifi.c\<close>) up to its wait. Each is the sequence of calls it makes on ESP-IDF;
  a call under \<open>ESP_ERROR_CHECK\<close> that fails aborts the program (\<open>checked\<close>). The results of the calls are inputs.
\<close>

section \<open>UART and reset pin\<close>

record uart_config_t =
  uc_baud_rate :: u32
  uc_data_bits :: uart_word_length
  uc_stop_bits :: uart_stop_bits
  uc_flow_ctrl :: uart_flow
  uc_parity :: uart_parity

text \<open>The pins are build options; \<open>None\<close> is \<open>UART_PIN_NO_CHANGE\<close>.\<close>

record pins =
  ESP_UART_TX_PIN :: nat
  ESP_UART_RX_PIN :: nat
  ESP_UART_RTS_PIN :: nat
  ESP_UART_CTS_PIN :: nat
  ESP_UART_RESET_PIN :: nat

datatype setup_call =
    gpio_config_output nat
  | gpio_set_pin nat bool
  | uart_driver_install nat nat nat
  | uart_param_config uart_config_t
  | uart_set_pin nat nat "nat option" "nat option"

definition uart_default :: uart_config_t where
  "uart_default = \<lparr>uc_baud_rate = 115200, uc_data_bits = UART_DATA_8_BITS, uc_stop_bits = UART_STOP_BITS_1,
     uc_flow_ctrl = UART_HW_FLOWCTRL_DISABLE, uc_parity = UART_PARITY_DISABLE\<rparr>"

definition uart_rx_setup_calls :: "kconfig \<Rightarrow> pins \<Rightarrow> setup_call list" where
  "uart_rx_setup_calls K P =
     (if ESP_UART_RESET_ENABLED K
      then [gpio_config_output (ESP_UART_RESET_PIN P), gpio_set_pin (ESP_UART_RESET_PIN P) (RESET_INACTIVE_LEVEL K)] else []) @
     [uart_driver_install UART_RX_BUFFER UART_RX_BUFFER UART_EVENT_QUEUE_SIZE,
      uart_param_config uart_default,
      (if ESP_UART_ALLOW_HW_FLOW_CTRL K
       then uart_set_pin (ESP_UART_TX_PIN P) (ESP_UART_RX_PIN P) (Some (ESP_UART_RTS_PIN P)) (Some (ESP_UART_CTS_PIN P))
       else uart_set_pin (ESP_UART_TX_PIN P) (ESP_UART_RX_PIN P) None None)]"

definition uart_rx_setup :: "kconfig \<Rightarrow> pins \<Rightarrow> (setup_call \<Rightarrow> bool) \<Rightarrow> setup_call list \<times> bool" where
  "uart_rx_setup K P D = checked D (uart_rx_setup_calls K P)"

section \<open>Server socket\<close>

datatype socket_call = socket_create | setsockopt_reuseaddr | bind_port u16 | listen_backlog nat | close_socket | vTaskDelete

definition tcp_setup :: "u16 \<Rightarrow> bool \<Rightarrow> bool \<Rightarrow> socket_call list \<times> bool" where
  "tcp_setup PORT socket_ok bind_ok =
     (if \<not> socket_ok then ([socket_create, vTaskDelete], False)
      else if \<not> bind_ok then ([socket_create, setsockopt_reuseaddr, bind_port PORT, close_socket, vTaskDelete], False)
      else ([socket_create, setsockopt_reuseaddr, bind_port PORT, listen_backlog 1], True))"

section \<open>Wi-Fi\<close>

datatype esp_err_t = ESP_OK | ESP_ERR_NVS_NO_FREE_PAGES | ESP_ERR_NVS_NEW_VERSION_FOUND | ESP_ERR_OTHER

datatype wifi_call =
    nvs_flash_init
  | nvs_flash_erase
  | xEventGroupCreate
  | esp_netif_init
  | esp_event_loop_create_default
  | esp_netif_create_default_wifi_sta
  | esp_wifi_init
  | register_WIFI_EVENT
  | register_IP_EVENT
  | esp_wifi_set_mode_STA
  | esp_wifi_start
  | esp_wifi_set_ps_NONE

text \<open>The calls of the start that are not under \<open>ESP_ERROR_CHECK\<close>.\<close>

fun not_checked :: "wifi_call \<Rightarrow> bool" where
  "not_checked xEventGroupCreate = True"
| "not_checked esp_netif_create_default_wifi_sta = True"
| "not_checked _ = False"

text \<open>The flash: \<open>ret\<close> is the result of the first initialisation, \<open>ret2\<close> of a second one.\<close>

definition nvs_setup :: "(wifi_call \<Rightarrow> bool) \<Rightarrow> esp_err_t \<Rightarrow> esp_err_t \<Rightarrow> wifi_call list \<times> bool" where
  "nvs_setup D ret ret2 =
     (if ret = ESP_ERR_NVS_NO_FREE_PAGES \<or> ret = ESP_ERR_NVS_NEW_VERSION_FOUND
      then (if D nvs_flash_erase then ([nvs_flash_init, nvs_flash_erase, nvs_flash_init], ret2 = ESP_OK)
            else ([nvs_flash_init, nvs_flash_erase], False))
      else ([nvs_flash_init], ret = ESP_OK))"

definition wifi_setup_calls :: "wifi_call list" where
  "wifi_setup_calls =
     [xEventGroupCreate, esp_netif_init, esp_event_loop_create_default, esp_netif_create_default_wifi_sta, esp_wifi_init,
      register_WIFI_EVENT, register_IP_EVENT, esp_wifi_set_mode_STA, esp_wifi_start, esp_wifi_set_ps_NONE]"

definition wifi_init_setup :: "(wifi_call \<Rightarrow> bool) \<Rightarrow> esp_err_t \<Rightarrow> esp_err_t \<Rightarrow> wifi_call list \<times> bool" where
  "wifi_init_setup D ret ret2 =
     (case nvs_setup D ret ret2 of
        (calls, False) \<Rightarrow> (calls, False)
      | (calls, True) \<Rightarrow>
          (case checked (\<lambda>c. not_checked c \<or> D c) wifi_setup_calls of (calls', ok) \<Rightarrow> (calls @ calls', ok)))"

section \<open>Lemmas\<close>

lemma checked_prefix: "\<exists>rest. cs = fst (checked D cs) @ rest"
proof (cases "snd (checked D cs)")
  case True
  then show ?thesis using checked_ok [OF True] by (metis append_Nil2)
next
  case False
  then show ?thesis using checked_refused [OF False] by (metis append.assoc append_Cons append_Nil)
qed

text \<open>The serial line when the set-up has succeeded.\<close>

fun line_setup :: "setup_call \<Rightarrow> line \<Rightarrow> line" where
  "line_setup (uart_param_config c) l =
     l\<lparr>ln_baud := uc_baud_rate c, ln_bits := bits_of (uc_data_bits c), ln_stop := stops_of (uc_stop_bits c),
       ln_parity := uc_parity c, ln_flow := uc_flow_ctrl c\<rparr>"
| "line_setup (gpio_set_pin _ v) l = l\<lparr>ln_pin := v\<rparr>"
| "line_setup _ l = l"

lemma uart_setup_line:
  assumes "snd (uart_rx_setup K P D)"
  shows "fold line_setup (fst (uart_rx_setup K P D)) l =
    l\<lparr>ln_baud := 115200, ln_bits := 8, ln_stop := 1, ln_parity := UART_PARITY_DISABLE, ln_flow := UART_HW_FLOWCTRL_DISABLE,
      ln_pin := (if ESP_UART_RESET_ENABLED K then RESET_INACTIVE_LEVEL K else ln_pin l)\<rparr>"
  using assms checked_ok [of D "uart_rx_setup_calls K P"]
  by (auto simp: uart_rx_setup_def uart_rx_setup_calls_def uart_default_def)

text \<open>The reset pin is at its inactive level before the UART is touched.\<close>

lemma uart_setup_pin_first:
  assumes "ESP_UART_RESET_ENABLED K" and "uart_driver_install a b c \<in> set (fst (uart_rx_setup K P D))"
  shows "\<exists>pre post. fst (uart_rx_setup K P D) = pre @ uart_driver_install a b c # post \<and>
    gpio_set_pin (ESP_UART_RESET_PIN P) (RESET_INACTIVE_LEVEL K) \<in> set pre"
proof -
  let ?pre = "[gpio_config_output (ESP_UART_RESET_PIN P), gpio_set_pin (ESP_UART_RESET_PIN P) (RESET_INACTIVE_LEVEL K)]"
  obtain cs where calls: "uart_rx_setup_calls K P = ?pre @ uart_driver_install UART_RX_BUFFER UART_RX_BUFFER UART_EVENT_QUEUE_SIZE # cs"
    using assms(1) by (simp add: uart_rx_setup_calls_def)
  from assms(2) have "D (hd ?pre) \<and> D (hd (tl ?pre))"
    by (auto simp: uart_rx_setup_def calls split: if_splits)
  then have "\<exists>post. fst (uart_rx_setup K P D) = ?pre @ uart_driver_install UART_RX_BUFFER UART_RX_BUFFER UART_EVENT_QUEUE_SIZE # post"
    by (simp add: uart_rx_setup_def calls split: prod.split)
  moreover from assms(2) have "a = UART_RX_BUFFER \<and> b = UART_RX_BUFFER \<and> c = UART_EVENT_QUEUE_SIZE"
  proof -
    obtain rest where "uart_rx_setup_calls K P = fst (uart_rx_setup K P D) @ rest"
      unfolding uart_rx_setup_def using checked_prefix by blast
    with assms(2) have "uart_driver_install a b c \<in> set (uart_rx_setup_calls K P)" by (metis UnCI set_append)
    then show ?thesis by (auto simp: uart_rx_setup_calls_def split: if_splits)
  qed
  ultimately show ?thesis by (metis list.set_intros(1,2))
qed

text \<open>
  The station is started only after both handlers are registered, so that none of its events is missed; the flash
  is erased only when its first initialisation asks for it; and the program goes on exactly when the last
  initialisation and all checked calls succeeded.
\<close>

lemma wifi_setup_order:
  assumes "wifi_init_setup D ret ret2 = (calls, ok)"
  shows "esp_wifi_start \<in> set calls \<Longrightarrow> \<exists>pre post. calls = pre @ esp_wifi_start # post \<and>
      register_WIFI_EVENT \<in> set pre \<and> register_IP_EVENT \<in> set pre"
    and "nvs_flash_erase \<in> set calls \<Longrightarrow> ret = ESP_ERR_NVS_NO_FREE_PAGES \<or> ret = ESP_ERR_NVS_NEW_VERSION_FOUND"
    and "ok = (snd (nvs_setup D ret ret2) \<and> list_all (\<lambda>c. not_checked c \<or> D c) wifi_setup_calls)"
proof -
  let ?D = "\<lambda>c. not_checked c \<or> D c"
  obtain nvs go where nvs: "nvs_setup D ret ret2 = (nvs, go)" by fastforce
  have no_start: "esp_wifi_start \<notin> set nvs" using nvs by (auto simp: nvs_setup_def split: if_splits)
  show "\<exists>pre post. calls = pre @ esp_wifi_start # post \<and> register_WIFI_EVENT \<in> set pre \<and> register_IP_EVENT \<in> set pre"
    if "esp_wifi_start \<in> set calls"
  proof -
    have go: "calls = nvs @ fst (checked ?D wifi_setup_calls)"
      using that assms nvs no_start by (auto simp: wifi_init_setup_def split: bool.splits prod.splits)
    with that no_start have "esp_wifi_start \<in> set (fst (checked ?D wifi_setup_calls))" by simp
    then have "\<exists>post. fst (checked ?D wifi_setup_calls) = take 8 wifi_setup_calls @ esp_wifi_start # post"
      by (auto simp: wifi_setup_calls_def split: if_splits prod.splits)
    then obtain post where "calls = (nvs @ take 8 wifi_setup_calls) @ esp_wifi_start # post" using go by auto
    moreover have "register_WIFI_EVENT \<in> set (take 8 wifi_setup_calls)" "register_IP_EVENT \<in> set (take 8 wifi_setup_calls)"
      by (simp_all add: wifi_setup_calls_def)
    ultimately show ?thesis by (metis UnCI set_append)
  qed
  have "nvs_flash_erase \<notin> set wifi_setup_calls" by (simp add: wifi_setup_calls_def)
  then have "nvs_flash_erase \<notin> set (fst (checked ?D wifi_setup_calls))"
    using checked_prefix [of wifi_setup_calls ?D] by (metis UnCI set_append)
  then show "ret = ESP_ERR_NVS_NO_FREE_PAGES \<or> ret = ESP_ERR_NVS_NEW_VERSION_FOUND" if "nvs_flash_erase \<in> set calls"
    using that assms nvs by (auto simp: wifi_init_setup_def nvs_setup_def split: if_splits prod.splits)
  have "snd (checked E cs) = list_all E cs" for E and cs :: "wifi_call list"
    by (induction cs) (auto split: prod.splits)
  then have "checked ?D wifi_setup_calls = (fst (checked ?D wifi_setup_calls), list_all ?D wifi_setup_calls)"
    by (simp only: prod_eq_iff fst_conv snd_conv)
  then show "ok = (snd (nvs_setup D ret ret2) \<and> list_all ?D wifi_setup_calls)"
    using assms nvs by (cases go) (simp_all add: wifi_init_setup_def split: prod.splits)
qed

end
