(* ===== verification/Fw_Main.thy ===== *)
theory Fw_Main
  imports Fw_Setup
begin

text \<open>
  The start of the firmware (\<open>server/main/main.c\<close>, \<open>app_main\<close>): after \<open>wifi_init\<close> the Tailscale network is brought
  up, if it is configured, and only then the tasks of the bridge are created. MicroLink is a library: whether
  its initialisation succeeds and what each poll of \<open>microlink_is_connected\<close> returns are inputs. What the main task
  does is a list of effects; nothing follows a restart.
\<close>

datatype fw_task = status_led_task | uart_rx_task | uart_tx_task | tcp_task

datatype boot_effect =
    CreateTask fw_task
  | BootStatus StatusUpdateMessage
  | MicrolinkStart
  | DelayMs nat
  | EspRestart

record boot_env =
  ESP_TAILSCALE_ENABLED :: bool
  be_wifi :: main_pc \<comment> \<open>how \<open>wifi_init\<close> ended\<close>
  be_init :: bool \<comment> \<open>\<open>microlink_init\<close> returned a handle\<close>
  be_connected :: "nat \<Rightarrow> bool" \<comment> \<open>the result of each call of \<open>microlink_is_connected\<close>\<close>

definition boot_status :: "kconfig \<Rightarrow> StatusUpdateMessage \<Rightarrow> boot_effect list" where
  "boot_status K m = (if ESP_STATUS_LED_ENABLED K then [BootStatus m] else [])"

text \<open>
  \<open>while (!microlink_is_connected(ml) && timeout_sec > 0)\<close>: \<open>n\<close> counts the calls so far. The result is the number of
  calls made and the effects.
\<close>

fun tailscale_wait :: "(nat \<Rightarrow> bool) \<Rightarrow> nat \<Rightarrow> nat \<Rightarrow> nat \<times> boot_effect list" where
  "tailscale_wait connected n 0 = (Suc n, [])"
| "tailscale_wait connected n (Suc timeout_sec) =
     (if connected n then (Suc n, [])
      else case tailscale_wait connected (Suc n) timeout_sec of (n', es) \<Rightarrow> (n', DelayMs 1000 # es))"

definition tailscale_failed :: "kconfig \<Rightarrow> boot_effect list" where
  "tailscale_failed K = boot_status K STATUS_TAILSCALE_FAILED @ [DelayMs 5000, EspRestart]"

definition start_tasks :: "boot_effect list" where
  "start_tasks = [CreateTask uart_rx_task, CreateTask uart_tx_task, CreateTask tcp_task]"

definition app_main :: "kconfig \<Rightarrow> boot_env \<Rightarrow> boot_effect list" where
  "app_main K env =
     (if ESP_STATUS_LED_ENABLED K then [CreateTask status_led_task] else []) @
     (case be_wifi env of
        InWifiInit \<Rightarrow> []
      | Restarting \<Rightarrow> [DelayMs 5000, EspRestart]
      | Continued \<Rightarrow>
          if \<not> ESP_TAILSCALE_ENABLED env then start_tasks
          else
            boot_status K STATUS_TAILSCALE_CONNECTING @
            (if \<not> be_init env then tailscale_failed K
             else
               (case tailscale_wait (be_connected env) 0 60 of
                  (n, es) \<Rightarrow>
                    MicrolinkStart # es @
                    (if \<not> be_connected env n then tailscale_failed K
                     else boot_status K STATUS_TAILSCALE_CONNECTED @ start_tasks))))"

section \<open>The wait\<close>

text \<open>The first poll that finds the network, among the polls from \<open>n\<close> on, before the time is up.\<close>

definition first_poll :: "(nat \<Rightarrow> bool) \<Rightarrow> nat \<Rightarrow> nat \<Rightarrow> nat" where
  "first_poll connected n t = length (takeWhile (\<lambda>i. \<not> connected i) [n..<n + t])"

lemma tailscale_wait_eq:
  "tailscale_wait connected n t
     = (Suc (n + first_poll connected n t), replicate (first_poll connected n t) (DelayMs 1000))"
proof (induction t arbitrary: n)
  case (Suc t)
  have "[n..<n + Suc t] = n # [Suc n..<Suc n + t]" by (simp add: upt_conv_Cons)
  then have "first_poll connected n (Suc t) = (if connected n then 0 else Suc (first_poll connected (Suc n) t))"
    unfolding first_poll_def by simp
  with Suc show ?case by simp
qed (simp add: first_poll_def)

lemma first_poll_le: "first_poll connected n t \<le> t"
  unfolding first_poll_def by (metis add_diff_cancel_left' length_takeWhile_le length_upt)

fun waited_ms :: "boot_effect list \<Rightarrow> nat" where
  "waited_ms [] = 0"
| "waited_ms (DelayMs d # es) = d + waited_ms es"
| "waited_ms (_ # es) = waited_ms es"

lemma waited_ms_append [simp]: "waited_ms (xs @ ys) = waited_ms xs + waited_ms ys"
  by (induction xs rule: waited_ms.induct) simp_all

lemma waited_ms_replicate [simp]: "waited_ms (replicate k (DelayMs d)) = k * d"
  by (induction k) simp_all

section \<open>Properties\<close>

text \<open>
  The start always ends, within 65 seconds after Wi-Fi is decided. It ends with the tasks of the bridge when Wi-Fi
  is up and the Tailscale network is not wanted or was found and is still there, and with a restart
  otherwise, in which case no task of the bridge was created.
\<close>

lemma app_main_boots:
  assumes "be_wifi env \<noteq> InWifiInit"
  shows "waited_ms (app_main K env) \<le> 65000"
    and "(be_wifi env = Continued \<and> (ESP_TAILSCALE_ENABLED env \<longrightarrow>
           be_init env \<and> be_connected env (Suc (first_poll (be_connected env) 0 60)))) =
         (\<exists>before. app_main K env = before @ start_tasks)"
    and "(\<exists>before. app_main K env = before @ start_tasks) \<noteq> (EspRestart \<in> set (app_main K env))"
proof -
  have w: "first_poll (be_connected env) 0 60 \<le> 60" by (rule first_poll_le)
  have last: "\<nexists>before. xs @ [EspRestart] = before @ start_tasks" for xs by (simp add: start_tasks_def)
  note defs = app_main_def tailscale_failed_def boot_status_def tailscale_wait_eq
  show "waited_ms (app_main K env) \<le> 65000"
    using assms w by (cases "be_wifi env") (auto simp: defs start_tasks_def)
  have ok: "(\<exists>before. app_main K env = before @ start_tasks) \<and> EspRestart \<notin> set (app_main K env)"
    if "be_wifi env = Continued \<and> (ESP_TAILSCALE_ENABLED env \<longrightarrow>
      be_init env \<and> be_connected env (Suc (first_poll (be_connected env) 0 60)))"
    using that by (auto simp: defs start_tasks_def)
  have bad: "\<exists>xs. app_main K env = xs @ [EspRestart]"
    if "\<not> (be_wifi env = Continued \<and> (ESP_TAILSCALE_ENABLED env \<longrightarrow>
      be_init env \<and> be_connected env (Suc (first_poll (be_connected env) 0 60))))"
    using that assms by (cases "be_wifi env") (auto simp: defs)
  show "(be_wifi env = Continued \<and> (ESP_TAILSCALE_ENABLED env \<longrightarrow>
           be_init env \<and> be_connected env (Suc (first_poll (be_connected env) 0 60)))) =
         (\<exists>before. app_main K env = before @ start_tasks)"
    using ok bad last by metis
  show "(\<exists>before. app_main K env = before @ start_tasks) \<noteq> (EspRestart \<in> set (app_main K env))"
    using ok bad last by (metis in_set_conv_decomp)
qed

end
