(* ===== verification/Spec2Isabelle.thy ===== *)
theory Spec2Isabelle
  imports Daemon_Refine Daemon_Clients Cli Test_Server Fw_Main
begin

text \<open>
  \<^bold>\<open>tcpuart: a verification of the daemon, its protocols, its client and its device firmware.\<close>

  \<^bold>\<open>The program.\<close> \<open>tcpuart\<close> makes the serial port of a remote device look like a local terminal. A daemon
  (\<open>src/daemon\<close>) holds, for each connection, a pseudo terminal and a TCP connection to the device. What an
  application writes to the terminal, and the line settings it chooses, go to the device as messages of the
  device protocol (\<open>src/common/src/msg.rs\<close>); data from the device goes to the terminal. A command line
  client (\<open>src/cli\<close>) talks to the daemon over a Unix socket in a second protocol
  (\<open>src/common/src/ctl.rs\<close>) to add, remove, list and reset connections. \<open>src/test-server\<close> simulates a
  device; \<open>src/server\<close> is the firmware of a real one.

  \<^bold>\<open>Theories.\<close>
  \<^item> \<open>Prelude\<close>: machine integers, \<open>Result\<close>, panics, slices, big-endian integers; the locale \<open>task_loop\<close> of
    tasks that are driven by inputs, with its generic invariant and no-panic lemmas, and the locale
    \<open>simulation\<close> of step relations one of which abstracts the other.
  \<^item> \<open>Rust_Std\<close>: strings as UTF-8 bytes, decimal printing, cursors, durations, \<open>swap_remove\<close> and
    \<open>position\<close>.
  \<^item> \<open>Framing\<close>: the \<open>bytes\<close> crate as a parameter (record \<open>bytes_api\<close>) with the locale \<open>bytes_crate\<close> of what its
    documentation promises, interpreted on a reference implementation; how \<open>tokio_util\<close> drives a decoder
    over chunks (\<open>receive\<close>); the locales \<open>frame_decoder\<close> and \<open>stream_codec\<close>, in which it is proved once
    that the result does not depend on the chunks. \<open>Readers\<close>: decoders as sequences of reads.
  \<^item> \<open>Device_Msg\<close> (\<open>msg.rs\<close>) and \<open>Ctl_Codec\<close> (\<open>ctl.rs\<close>): messages, encoders and decoders; each is a
    \<open>stream_codec\<close>.
  \<^item> \<open>Async_Pty\<close> (\<open>async_pty.rs\<close>): the pseudo terminal in packet mode; the platform's constants are a parameter
    (\<open>termios_api\<close>) with the locale \<open>termios_platform\<close>, interpreted on the Linux values.
  \<^item> \<open>Tcp_Bridge\<close> (\<open>tcp_bridge.rs\<close>): the TCP side of a connection.
  \<^item> \<open>Connection_Task\<close> (\<open>connection.rs\<close>, \<open>event.rs\<close>): the handle of a connection and its task, a state machine with
    the states of \<open>ConnState\<close>. \<open>Connection_Inv\<close>: its executions (\<open>conn_run\<close>), invariant and histories.
  \<^item> \<open>Daemon_State\<close> (\<open>state.rs\<close>): the registry, with the locale \<open>conn_registry\<close> of what the handler relies on.
  \<^item> \<open>Daemon_Main\<close> (\<open>daemon/src/main.rs\<close>): request handler, control sockets, main loop.
  \<^item> \<open>Daemon_System\<close>: main loop, connection tasks and the event channel together, as a step relation; the
    answers of tasks to the main loop are arbitrary there. \<open>Daemon_Async\<close>: the same with the request channels
    and the oneshot channels, so that the main loop waits for the task it asks, step by step.
    \<open>Daemon_Refine\<close>: the second refines the first, an interpretation of \<open>simulation\<close>. \<open>Daemon_Clients\<close>: the
    control sockets (\<open>process_stream\<close>) as interleaved steps around the main loop; the locale \<open>command_server\<close>
    says what they rely on and is interpreted on the main loop of \<open>Daemon_Async\<close>.
  \<^item> \<open>Cli\<close> (\<open>cli/src/main.rs\<close>) and \<open>Test_Server\<close> (\<open>test-server/src/main.rs\<close>: the clients, the accept loop, the
    reader of standard input and the broadcast channel).
  \<^item> \<open>Fw_Message\<close> (\<open>server/main/message.h\<close> and the reader in \<open>tcp.c\<close>): messages in memory and off a socket; the locale
    \<open>stream_socket\<close> of what \<open>recv\<close> promises, interpreted on a socket that delivers arbitrary pieces.
    \<open>Fw_Uart\<close> (\<open>uart.c\<close>): what a message makes the UART driver do. \<open>Fw_Status\<close> (\<open>status.c\<close>, \<open>status.h\<close>): the
    status LED. \<open>Fw_System\<close> (\<open>tcp.c\<close>, \<open>uart.c\<close>, \<open>main.c\<close>): the three tasks with their queues and the event
    counter as a step function and a step relation. \<open>Fw_Wifi\<close> (\<open>wifi.c\<close>): the station, a \<open>task_loop\<close>.
    \<open>Fw_Setup\<close> (\<open>uart.c\<close>, \<open>tcp.c\<close>, \<open>wifi.c\<close>): the set-up calls of the tasks before their loops, in order.
    \<open>Fw_Main\<close> (\<open>main.c\<close>): the start.
  \<^item> this theory: properties across components.

  \<^bold>\<open>How the code is modelled.\<close> A Rust function is a HOL function with the source's name (prefixed by its type
  where needed); a struct is a record, an enum a datatype; \<open>&mut self\<close> is returned updated. A panic is
  \<open>None\<close> or \<open>Panicked\<close>. An \<open>async\<close> function is given, as its input, which branch of \<open>select!\<close> was taken
  and what each \<open>await\<close> and system call in it returned, and gives the list of its effects on the outside;
  \<open>Suspended\<close> means that the input ends before the function does. So a theorem about all inputs is
  a theorem about all interleavings of the terminal, the network, the clients and the timers. The loops
  of \<open>select!\<close> consume one input per turn and need no other bound. The concurrent parts (\<open>Daemon_System\<close>,
  \<open>Daemon_Async\<close>, \<open>Fw_System\<close>) are functions from a list of actions, a schedule, to the state reached: an action is
  what one task does between two points at which it can wait, and gives \<open>None\<close> where it has to wait.
  The C code of the firmware is modelled in the same way, with \<open>w word\<close> for its unsigned integers, the bytes
  of the buffers, the queues at their depth, and driver calls as effects; the build options are a record.

  \<^bold>\<open>What is shown.\<close>
  \<^item> Codecs: encoding and decoding are inverse and independent of how the transport cuts the bytes; decoders
    are total on arbitrary bytes; where lengths wrap or are not checked is stated exactly.
  \<^item> Terminal: the read loop is cancellation safe, its data and its line settings are exact, no change
    of the settings is missed.
  \<^item> Connection task: state, stream, pending request and held message always fit together; messages from the
    terminal reach the TCP stream in order and without loss, across reconnects; data from the device
    reaches the terminal in order; every control and status request is answered once, truthfully; the
    backoff doubles up to its cap; the task never panics, ends promptly when told and says so once.
    A message counts as sent when the send has succeeded. A send that fails is repeated on the
    next connection, so that a device may see such a message twice.
  \<^item> Daemon: the registry refines a map by name; each command has exactly the stated effect and answer;
    answers come in order; the main loop never panics; registry and tasks stay consistent.
  \<^item> Client: which addresses are accepted, and a whole exchange with the daemon.
  \<^item> Daemon with its channels: a request channel never holds more than one request, the main loop never waits for
    an answer that nobody owes (\<open>async_requests_owned\<close>), and a listing goes on (\<open>async_list_progress\<close>).
    Every run of it is a run of \<open>Daemon_System\<close> with the answers the tasks really gave
    (\<open>async_refines_system\<close>). Each client reads the answers to its own commands, in the order of its commands
    (\<open>clients_get_own_answers\<close>).
  \<^item> Firmware: the messages read do not depend on how the stream is cut; a message has on the line exactly the
    effect that the device protocol gives it (\<open>uart_tx_refines\<close>); data passes both ways in order and
    without loss (\<open>firmware_downstream\<close>, \<open>firmware_upstream\<close>) and is delivered (\<open>firmware_delivers\<close>); the LED
    refines a schedule of flashes; the station goes through its networks and gives up after its retries; the
    start ends with the tasks running or with a restart (\<open>app_main_boots\<close>).
  \<^item> Both sides together: what the daemon sends for a terminal drives the UART as the terminal asked
    (\<open>terminal_drives_uart\<close>), and what the UART receives reaches the terminal (\<open>uart_reaches_terminal\<close>).
  \<^item> Defects are proved as such: a late notice that removes a new connection of the same name
    (\<open>stale_close_removes_live_connection\<close>), long names that break a control socket (\<open>stream_panic_iff\<close>,
    \<open>long_name_breaks_stream\<close>), list lengths that wrap (\<open>response_list_count_wraps\<close>), a device that does not answer
    a reset and blocks the daemon (\<open>silent_device_blocks_daemon\<close>), a deadlock of main loop and closing task
    (\<open>daemon_deadlock\<close>); in the firmware a deadlock of its tasks (\<open>firmware_deadlock\<close>), sockets that are not
    closed (\<open>firmware_stops_accepting\<close>), messages that wait for an unrelated wake-up
    (\<open>firmware_forgets_messages\<close>), a station that stays down (\<open>wifi_never_reconnects\<close>) and line settings that a
    restart of the device undoes while the daemon does not repeat them (\<open>restart_loses_settings\<close>).

  \<^bold>\<open>What is not modelled.\<close> The libraries (\<open>tokio\<close>, \<open>tokio_util\<close>, \<open>bytes\<close>, \<open>nix\<close>, \<open>clap\<close>) are parameters or inputs;
  logging is left out. Time passes only as the input that a sleep is over, in the firmware as the number of ticks
  between two readings of the clock. The parsing of arguments by \<open>clap\<close>, a derived function, is not modelled; the
  client starts from the parsed command. Of the firmware, the set-up calls are modelled as the sequence
  of calls with their arguments; what ESP-IDF's drivers, FreeRTOS and MicroLink do in them is not.
\<close>

section \<open>What comes off the wire\<close>

text \<open>C21. Whatever bytes arrive, a message that one of the three decoders yields is a value of its type: a data array has its
  255 bytes, a string is valid UTF-8 of at most 255 bytes, a list has at most 65535 entries. So it can be
  encoded again, without error and without panic.\<close>

theorem decoded_well_typed:
  assumes "bytes_crate B"
  shows "(DeviceCodec_decode B src = Some (Ok (Some dm), r) \<longrightarrow>
      DeviceMessage_wf dm \<and> DeviceCodec_encode B dm dst = Some (Ok (), dst @ device_wire dm)) \<and>
    (DaemonRequestDecoder_decode B src = Some (Ok (Some req), r) \<longrightarrow>
      request_ok req \<and> DaemonRequestEncoder_encode B req dst = (Ok (), dst @ request_wire req)) \<and>
    (DaemonResponseDecoder_decode B src = Some (Ok (Some resp), r) \<longrightarrow>
      response_ok resp \<and> DaemonResponseEncoder_encode B resp dst = (Ok (), dst @ response_wire resp))"
proof (intro conjI impI)
  show wf: "DeviceMessage_wf dm" if "DeviceCodec_decode B src = Some (Ok (Some dm), r)"
    using that by (rule bytes_crate.decoded_frame [OF assms])
  show "DeviceCodec_encode B dm dst = Some (Ok (), dst @ device_wire dm)" if "DeviceCodec_decode B src = Some (Ok (Some dm), r)"
    by (rule bytes_crate.DeviceCodec_encode_wire [OF assms wf [OF that]])
  show req: "request_ok req" if "DaemonRequestDecoder_decode B src = Some (Ok (Some req), r)"
    using that by (rule bytes_crate.decoded_request_ok [OF assms])
  show "DaemonRequestEncoder_encode B req dst = (Ok (), dst @ request_wire req)"
    if "DaemonRequestDecoder_decode B src = Some (Ok (Some req), r)"
    by (rule bytes_crate.request_encode_wire [OF assms req [OF that]])
  show resp: "response_ok resp" if "DaemonResponseDecoder_decode B src = Some (Ok (Some resp), r)"
    using that by (rule bytes_crate.decoded_response_ok [OF assms])
  show "DaemonResponseEncoder_encode B resp dst = (Ok (), dst @ response_wire resp)"
    if "DaemonResponseDecoder_decode B src = Some (Ok (Some resp), r)"
    by (rule bytes_crate.response_encode_wire [OF assms resp [OF that]])
qed

theorem decoded_well_typed_witness:
  "DaemonRequestDecoder_decode bytes_ref [2, 1, 97, 9] = Some (Ok (Some (ReqRemove [97])), [9]) \<and> request_ok (ReqRemove [97])"
proof -
  have d: "DaemonRequestDecoder_decode bytes_ref [2, 1, 97, 9] = Some (Ok (Some (ReqRemove [97])), [9])" by code_simp
  then show ?thesis using decoded_well_typed [OF ref.bytes_crate_axioms] by blast
qed

section \<open>From the terminal to the device\<close>

text \<open>
  The messages that a run handed to the TCP stream, control requests included, and the bytes the framed
  stream makes of them with the encoder.
\<close>

fun tcp_message :: "effect \<Rightarrow> DeviceMessage list" where
  "tcp_message (Tcp (TcpSent m)) = [m]"
| "tcp_message _ = []"

definition tcp_messages :: "effect list \<Rightarrow> DeviceMessage list" where
  "tcp_messages es = concat (map tcp_message es)"

fun encode_messages :: "bytes_api \<Rightarrow> DeviceMessage list \<Rightarrow> BytesMut \<Rightarrow> BytesMut option" where
  "encode_messages B [] dst = Some dst"
| "encode_messages B (m # ms) dst =
     (case DeviceCodec_encode B m dst of
        Some (Ok _, dst') \<Rightarrow> encode_messages B ms dst'
      | _ \<Rightarrow> None)"

fun is_control :: "DeviceMessage \<Rightarrow> bool" where
  "is_control (ControlReq _) = True"
| "is_control _ = False"

lemma sent_filter: "sent es = filter (\<lambda>m. \<not> is_control m) (tcp_messages es)"
proof (induction es)
  case (Cons e es)
  moreover have "sent_1 e = filter (\<lambda>m. \<not> is_control m) (tcp_message e)"
    by (cases e rule: sent_1.cases) simp_all
  ultimately show ?case by (simp add: tcp_messages_def)
qed (simp add: tcp_messages_def)

lemma encode_messages_wire:
  assumes "bytes_crate B"
  shows "list_all DeviceMessage_wf ms \<Longrightarrow>
    encode_messages B ms dst = Some (dst @ concat (map device_wire ms))"
  by (induction ms arbitrary: dst) (simp_all add: bytes_crate.DeviceCodec_encode_wire [OF assms])

lemma pty_message_wf:
  assumes "conn_inv t" and "admissible i"
  shows "list_all DeviceMessage_wf (pty_message A t i)"
proof (cases i)
  case (InConnected c)
  show ?thesis
  proof (cases c)
    case (CPty its out)
    from assms InConnected CPty have
      fits: "list_all (readv_fits MAX_MESSAGE_LEN) its" "length (ct_pty_buf t) = MAX_MESSAGE_LEN"
      by (simp_all add: conn_inv_def)
    show ?thesis
      using InConnected CPty pty_data_message [OF _ fits]
      by (fastforce simp: pty_message_def config_message_def MAX_MESSAGE_LEN_def min_def
          split: option.splits Result.splits PtyReadResult.splits)
  qed (use InConnected in \<open>simp_all add: pty_message_def\<close>)
qed (simp_all add: pty_message_def)

lemma conn_run_wf:
  "conn_run A t0 ins rs es t \<Longrightarrow> conn_inv t0 \<Longrightarrow> list_all DeviceMessage_wf rs"
proof (induction rule: conn_run.induct)
  case (step ins rs es t i t' es')
  then show ?case using conn_run_facts [OF step.hyps(1)] pty_message_wf [of t i A] by auto
qed simp

lemma tcp_messages_wf:
  assumes "conn_run A t0 ins rs es t" and "conn_inv t0" and "unsent t0 = []"
  shows "list_all DeviceMessage_wf (tcp_messages es)"
proof -
  from conn_run_facts [OF assms(1,2)] assms(3) have "set (sent es) \<subseteq> set rs" by auto
  with conn_run_wf [OF assms(1,2)] have "list_all DeviceMessage_wf (filter (\<lambda>m. \<not> is_control m) (tcp_messages es))"
    by (auto simp: sent_filter list_all_iff)
  moreover have "DeviceMessage_wf m" if "is_control m" for m using that by (cases m) auto
  ultimately show ?thesis by (auto simp: list_all_iff)
qed

lemma filter_normalise: "filter (\<lambda>m. \<not> is_control m) (map normalise ms) = map normalise (filter (\<lambda>m. \<not> is_control m) ms)"
proof (induction ms)
  case (Cons m ms)
  then show ?case by (cases m) simp_all
qed simp

text \<open>From the terminal to the device, through the codec: whatever a run of a connection handed to the TCP
  stream is encoded without error, and a device that decodes these bytes gets, however the network
  cuts them into pieces, exactly the messages that were read from the terminal, in order, between the
  control requests; missing is only the message still held, and at most one more after a shutdown.\<close>

lemma terminal_reaches_device:
  assumes "bytes_crate B"
    and "conn_run A (snd (build_and_spawn name addr port master path sh ch)) ins rs es t"
  shows "\<exists>w. encode_messages B (tcp_messages es) [] = Some w \<and>
    (\<forall>chunks. concat chunks = w \<longrightarrow>
      (\<exists>ms lost. receive (DeviceCodec_decode B) [] chunks = (ms, Waiting []) \<and>
        map normalise rs = filter (\<lambda>m. \<not> is_control m) ms @ map normalise (unsent t) @ lost \<and> length lost \<le> 1 \<and>
        (ct_state t \<noteq> ShuttingDown \<longrightarrow> lost = [])))"
proof -
  let ?ms = "tcp_messages es"
  have wf: "list_all DeviceMessage_wf ?ms"
    using tcp_messages_wf [OF assms(2)] by (simp add: build_and_spawn_inv)
  obtain lost where rs: "rs = sent es @ unsent t @ lost" "length lost \<le> 1" "ct_state t \<noteq> ShuttingDown \<longrightarrow> lost = []"
    using conn_run_facts [OF assms(2) build_and_spawn_inv(1)] by (auto simp: build_and_spawn_inv(2))
  show ?thesis
  proof (intro exI conjI allI impI)
    show "encode_messages B ?ms [] = Some (concat (map device_wire ?ms))"
      using encode_messages_wire [OF assms(1) wf, of "[]"] by simp
    fix chunks assume "concat chunks = concat (map device_wire ?ms)"
    from device_receive_whole [OF assms(1) wf this]
    show "receive (DeviceCodec_decode B) [] chunks = (map normalise ?ms, Waiting [])" .
    show "map normalise rs = filter (\<lambda>m. \<not> is_control m) (map normalise ?ms) @ map normalise (unsent t) @ map normalise lost"
      by (simp add: rs(1) sent_filter filter_normalise)
    show "length (map normalise lost) \<le> 1" using rs(2) by simp
    assume "ct_state t \<noteq> ShuttingDown"
    with rs(3) show "map normalise lost = []" by simp
  qed
qed

section \<open>From the terminal to the serial line\<close>

text \<open>A driver that accepts every call; the messages of the daemon then mean what they say.\<close>

lemma message_calls_line:
  assumes "\<forall>c. D c" and "DeviceMessage_wf m" and "length buf = MAX_MESSAGE_BODY_SIZE"
  shows "line_calls K (message_calls K D (fw_message m buf)) l = line_message K m l"
proof -
  have b: "length (body (fw_message m buf)) = MAX_MESSAGE_BODY_SIZE"
    using length_payload [OF assms(2)] data_size_le [of m] assms(3) by (simp add: fw_message_def MAX_MESSAGE_BODY_SIZE_def)
  from uart_tx_meaning [OF assms(2,3) b, of K l D] assms(1) show ?thesis
    by (simp add: message_calls_def split: prod.splits if_splits)
qed

lemma messages_line:
  assumes "\<forall>c. D c" and "length buf = MAX_MESSAGE_BODY_SIZE"
  shows "list_all DeviceMessage_wf ms \<Longrightarrow>
    line_calls K (concat (map (\<lambda>m. message_calls K D (fw_message m buf)) ms)) l = fold (line_message K) ms l"
proof (induction ms arbitrary: l)
  case (Cons m ms)
  then have "line_calls K (message_calls K D (fw_message m buf)) l = line_message K m l"
    by (intro message_calls_line assms) simp
  with Cons show ?case by (simp add: line_calls_def)
qed (simp add: line_calls_def)

text \<open>C2. From the terminal to the serial line, through daemon, network and firmware: the firmware reads from the socket, in
  whatever pieces the network delivers it, one message for each message the connection handed to its TCP stream. Once a
  firmware that has read these messages has handled them all, with a driver that accepts the calls, the
  serial line has been written and set exactly as the messages say, in their order: all that was typed, and the line
  settings of the terminal.\<close>

theorem terminal_drives_uart:
  assumes "bytes_crate B" and "stream_socket recv outstanding" and "\<forall>c. D c"
    and "conn_run A (snd (build_and_spawn name addr port master path sh ch)) ins rs es t"
    and "encode_messages B (tcp_messages es) [] = Some w" and "outstanding sock = w" and "Message_ok buf"
  shows "\<exists>msgs sock'. read_msgs recv (length (tcp_messages es)) sock buf = Some (msgs, sock') \<and> outstanding sock' = [] \<and>
    (\<forall>acts s. fw_run K D N acts fw_init = Some s \<and> h_read s = msgs \<and> tcp_to_uart_queue s = [] \<and> forward_pending s = [] \<longrightarrow>
       line_calls K (h_calls s) l = fold (line_message K) (tcp_messages es) l)"
proof -
  let ?ms = "tcp_messages es"
  let ?msgs = "map (\<lambda>m. fw_message m (body buf)) ?ms"
  have wf: "list_all DeviceMessage_wf ?ms"
    using tcp_messages_wf [OF assms(4)] by (simp add: build_and_spawn_inv)
  have b: "length (body buf) = MAX_MESSAGE_BODY_SIZE" using assms(7) by (simp add: Message_ok_def)
  have "outstanding sock = concat (map device_wire ?ms) @ []"
    using encode_messages_wire [OF assms(1) wf, of "[]"] assms(5,6) by simp
  from stream_socket.read_msgs_wire [OF assms(2) b wf this] obtain sock' where
    "read_msgs recv (length ?ms) sock buf = Some (?msgs, sock')" "outstanding sock' = []" by blast
  moreover have "line_calls K (h_calls s) l = fold (line_message K) ?ms l"
    if "fw_run K D N acts fw_init = Some s" "h_read s = ?msgs" "tcp_to_uart_queue s = []" "forward_pending s = []" for acts s
  proof -
    have "h_calls s = concat (map (message_calls K D) (h_taken s))" "h_taken s = ?msgs"
      using fw_reach_inv [OF that(1)] that(2-4) by (simp_all add: fw_inv_def inv_forward_def inv_calls_def)
    then show ?thesis using messages_line [OF assms(3) b wf, of K l] by (simp add: comp_def)
  qed
  ultimately show ?thesis by blast
qed

definition demo_wire :: "u8 list" where
  "demo_wire = the (encode_messages bytes_ref (tcp_messages demo_effects) [])"

definition demo_read :: "Message list" where
  "demo_read = map (\<lambda>m. fw_message m (body demo_buffer)) (tcp_messages demo_effects)"

definition demo_drive_acts :: "fw_act list" where
  "demo_drive_acts = AcceptOk # concat (map client_cycle demo_read) @ map (\<lambda>_. TxTake demo_buffer) demo_read"

theorem terminal_drives_uart_witness:
  "\<exists>s. fw_run demo_kconfig (\<lambda>_. True) 1 demo_drive_acts fw_init = Some s \<and>
     line_calls demo_kconfig (h_calls s) demo_line = fold (line_message demo_kconfig) (tcp_messages demo_effects) demo_line"
proof -
  let ?sock = "[take 1 demo_wire, drop 1 demo_wire]"
  have enc: "encode_messages bytes_ref (tcp_messages demo_effects) [] = Some demo_wire" by code_simp
  have r: "read_msgs chunk_recv (length (tcp_messages demo_effects)) ?sock demo_buffer = Some (demo_read, [])" by code_simp
  have "case fw_run demo_kconfig (\<lambda>_. True) 1 demo_drive_acts fw_init of None \<Rightarrow> False
     | Some s \<Rightarrow> h_read s = demo_read \<and> tcp_to_uart_queue s = [] \<and> forward_pending s = []" by code_simp
  then obtain s where s: "fw_run demo_kconfig (\<lambda>_. True) 1 demo_drive_acts fw_init = Some s" "h_read s = demo_read"
    "tcp_to_uart_queue s = []" "forward_pending s = []" by (auto split: option.splits)
  have "concat ?sock = demo_wire" by simp
  from terminal_drives_uart [OF ref.bytes_crate_axioms pieces.stream_socket_axioms _ demo_run [unfolded demo_task_def] enc this demo_buffer_ok,
      of "\<lambda>_. True" demo_kconfig 1 demo_line] r s show ?thesis by auto
qed

section \<open>From the serial line to the terminal\<close>

text \<open>C3. From the serial line to the terminal, through firmware, network and daemon: whatever part of what a connected firmware has sent
  the network has delivered, in whatever pieces, and however many of the messages in it the connection has taken, the bytes it has
  written to the terminal are, in order and without loss, those that arrived on the UART after the ones sent to earlier clients.
  Once everything is delivered and taken, only the bytes still queued or buffered in the firmware are missing.\<close>

theorem uart_reaches_terminal:
  assumes "bytes_crate B" and "fw_run K D N acts fw_init = Some s" and "tcp_at s \<noteq> Accepting"
    and "prefix (concat chunks) (h_sent s)"
    and "conn_run A (spawned name addr port master path sh ch) ins rs es t" and "ct_state t \<noteq> ShuttingDown"
    and "prefix (concat (map device_message ins)) (filter is_data (fst (receive (DeviceCodec_decode B) [] chunks)))"
  shows "\<exists>coming. h_arrived s = concat (map data_of (take (h_base s) (h_popped s))) @ pty_written es @ coming \<and>
    (concat chunks = h_sent s \<and>
     concat (map device_message ins) = filter is_data (fst (receive (DeviceCodec_decode B) [] chunks)) \<longrightarrow>
       coming = concat (map data_of (uart_to_tcp_queue s @ rx_pending s)) @ rx_buffer s)"
proof -
  let ?ms = "drop (h_base s) (h_popped s)"
  let ?got = "fst (receive (DeviceCodec_decode B) [] chunks)"
  let ?all = "filter is_data (map normalise (map out_message ?ms))"
  let ?rest = "concat (map data_of (uart_to_tcp_queue s @ rx_pending s)) @ rx_buffer s"
  have inv: "fw_inv K D s" using assms(2) by (rule fw_reach_inv)
  note ok = popped_ok [OF inv] and sent = sent_wire [OF inv assms(3)]
  have wf: "list_all DeviceMessage_wf (map out_message ?ms)" using fw_wires [OF ok] by simp
  have written: "concat (map payload (concat (map device_message ins))) = pty_written es"
    using conn_run_facts [OF assms(5) build_and_spawn_inv(1)] assms(6) by auto
  obtain k q where "receive (DeviceCodec_decode B) [] chunks = (map normalise (take k (map out_message ?ms)), Waiting q)"
    using device_receive_prefix [OF assms(1) wf] assms(4) sent by metis
  then have "prefix ?got (map normalise (map out_message ?ms))" by (metis fst_conv map_mono_prefix take_is_prefix)
  then have "prefix (concat (map device_message ins)) ?all" using assms(7) filter_prefix prefix_order.trans by metis
  from concat_map_prefix [OF this, of payload] obtain missing where missing: "concat (map data_of ?ms) = pty_written es @ missing"
    unfolding out_data [OF ok] written prefix_def by auto
  have "missing = []" if "concat chunks = h_sent s" "concat (map device_message ins) = filter is_data ?got"
  proof -
    have "?got = map normalise (map out_message ?ms)"
      using device_receive_whole [OF assms(1) wf] that(1) sent by (metis fst_conv)
    with that(2) written out_data [OF ok] missing show ?thesis by simp
  qed
  with arrived_split [OF inv] missing show ?thesis by (intro exI [of _ "missing @ ?rest"]) auto
qed

definition demo_receiving :: "unit step_in list" where
  "demo_receiving = [InReconnecting [WSleepDone] demo_connect,
     InConnected (CTcp (Some (Ok (Data 2 ([7, 8] @ replicate 253 0))), ()) (Ok ()))]"

theorem uart_reaches_terminal_witness:
  "\<exists>rs t coming. conn_run linux_termios demo_task demo_receiving rs [PtyWrite [7, 8]] t \<and>
     h_arrived demo_fw_sending = [7, 8] @ coming"
proof -
  have "case run_log linux_termios demo_task demo_receiving of
      Some (rs, es, t) \<Rightarrow> es = [PtyWrite [7, 8]] \<and> ct_state t \<noteq> ShuttingDown | None \<Rightarrow> False" by code_simp
  then obtain rs t where r: "run_log linux_termios demo_task demo_receiving = Some (rs, [PtyWrite [7, 8]], t)"
    and live: "ct_state t \<noteq> ShuttingDown"
    by (auto split: option.splits)
  have "list_all admissible demo_receiving" by code_simp
  from run_log_conn_run [OF r this] have run: "conn_run linux_termios demo_task demo_receiving rs [PtyWrite [7, 8]] t" .
  have "tcp_at demo_fw_sending \<noteq> Accepting" "h_base demo_fw_sending = 0"
    "concat (map device_message demo_receiving) = filter is_data (fst (receive (DeviceCodec_decode bytes_ref) [] [h_sent demo_fw_sending]))"
    by code_simp+
  with uart_reaches_terminal [OF ref.bytes_crate_axioms demo_fw_sending_run _ _ run [unfolded demo_task_def] live, of "[h_sent demo_fw_sending]"]
  obtain coming where "h_arrived demo_fw_sending = pty_written [PtyWrite [7, 8]] @ coming" by auto
  with run show ?thesis by (auto simp: pty_written_def)
qed

section \<open>A device that restarts\<close>

text \<open>The terminal is set to seven data bits; then the connection is lost and comes back.\<close>

definition seven_bits :: Termios where
  "seven_bits = \<lparr>control_flags = 0x20, local_flags = 0x10000, tio_rest = 13\<rparr>"

definition settings_inputs :: "unit step_in list" where
  "settings_inputs = [InReconnecting [WSleepDone] demo_connect,
     InConnected (CPty [demo_packet\<lparr>it_readv := ReadvOk [0x40], it_tcget := Ok seven_bits\<rparr>] (Ok (), ()))]"

definition restart_inputs :: "unit step_in list" where
  "restart_inputs = [InConnected (CTcp (None, ()) (Ok ())), InReconnecting [WSleepDone] demo_connect]"

text \<open>C26. A device that restarts loses the settings of the terminal. The daemon sends the line settings when they change, and
  to a device that comes back only the message it could not send before. So a terminal can be set to seven data bits at
  9600 baud, the device be told so, restart and be connected again, and its line be at its defaults of eight bits and 115200 baud,
  whatever its build options, while the terminal still shows the settings the application chose and nothing is left to send.\<close>

theorem restart_loses_settings:
  "\<exists>rs1 es1 t1 rs2 es2 t2. conn_run linux_termios demo_task settings_inputs rs1 es1 t1 \<and>
     tcp_messages es1 = [Config 9600 7 1 0 False] \<and> conn_run linux_termios t1 restart_inputs rs2 es2 t2 \<and>
     ct_state t2 = Connected \<and> unsent t2 = [] \<and> tcp_messages es2 = [] \<and>
     config_message (get_termios_change linux_termios (current_tio (ct_master t2))) = Config 9600 7 1 0 False \<and>
     (\<forall>K P l. let l' = fold (line_message K) (tcp_messages es2) (fold line_setup (fst (uart_rx_setup K P (\<lambda>_. True))) l)
        in snd (uart_rx_setup K P (\<lambda>_. True)) \<and> ln_baud l' = 115200 \<and> ln_bits l' = 8)"
proof -
  have "case run_log linux_termios demo_task settings_inputs of None \<Rightarrow> False
     | Some (rs1, es1, t1) \<Rightarrow> tcp_messages es1 = [Config 9600 7 1 0 False] \<and>
         (case run_log linux_termios t1 restart_inputs of None \<Rightarrow> False
          | Some (rs2, es2, t2) \<Rightarrow> ct_state t2 = Connected \<and> unsent t2 = [] \<and> tcp_messages es2 = [] \<and>
              config_message (get_termios_change linux_termios (current_tio (ct_master t2))) = Config 9600 7 1 0 False)"
    by code_simp
  then obtain rs1 es1 t1 rs2 es2 t2 where r: "run_log linux_termios demo_task settings_inputs = Some (rs1, es1, t1)"
    "run_log linux_termios t1 restart_inputs = Some (rs2, es2, t2)" and t: "tcp_messages es1 = [Config 9600 7 1 0 False]"
    "ct_state t2 = Connected" "unsent t2 = []" "tcp_messages es2 = []"
    "config_message (get_termios_change linux_termios (current_tio (ct_master t2))) = Config 9600 7 1 0 False"
    by (auto split: option.splits)
  have "list_all admissible settings_inputs" "list_all admissible restart_inputs" by code_simp+
  with run_log_conn_run r have "conn_run linux_termios demo_task settings_inputs rs1 es1 t1"
    "conn_run linux_termios t1 restart_inputs rs2 es2 t2" by blast+
  moreover have set_up: "snd (uart_rx_setup K P (\<lambda>_. True))" for K P
    by (simp add: uart_rx_setup_def uart_rx_setup_calls_def)
  ultimately show ?thesis using t uart_setup_line [OF set_up] by (fastforce simp: Let_def)
qed

section \<open>From the command line to the daemon and back\<close>

lemma request_receive_one:
  assumes "bytes_crate B" and "request_ok req" and "concat chunks = request_wire req"
  shows "receive (DaemonRequestDecoder_decode B) [] chunks = ([req], Waiting [])"
proof -
  have "DaemonRequestDecoder_decode B [] = Some (Ok None, [])"
    by (rule bytes_crate.request_dec_prefix [OF assms(1,2)]) (simp add: strict_prefix_def request_wire_def)
  from bytes_crate.request_receive [OF assms(1) _ this this, of "[req]" chunks] assms(2,3) show ?thesis by simp
qed

lemma response_receive_one:
  assumes "bytes_crate B" and "response_ok r" and "concat chunks = response_wire r"
  shows "receive (DaemonResponseDecoder_decode B) [] chunks = ([r], Waiting [])"
proof -
  have "DaemonResponseDecoder_decode B [] = Some (Ok None, [])"
    by (rule bytes_crate.response_dec_prefix [OF assms(1,2)]) (simp add: strict_prefix_def response_wire_def)
  from bytes_crate.response_receive [OF assms(1) _ this this, of "[r]" chunks] assms(2,3) show ?thesis by simp
qed

text \<open>C13. One exchange over the control socket, whatever pieces the socket cuts the bytes into: the daemon
  reads exactly the request the client made of its command line, the task that serves the socket writes
  the answer it got from the main loop for it, and the client reads exactly that answer and shows it.\<close>

theorem control_session:
  assumes "bytes_crate B" and "cli_message cmd = Ok req" and "request_ok req" and "response_ok r"
  shows "\<exists>sent bytes.
     (\<forall>next. fst (cli_main B show_err cmd (Ok ()) (Ok ()) next) = sent) \<and>
     (\<forall>chunks. concat chunks = sent \<longrightarrow> receive (DaemonRequestDecoder_decode B) [] chunks = ([req], Waiting [])) \<and>
     handle_stream B [\<lparr>su_next = Some (Ok req), su_tx = tx, su_sent = Ok (), su_answer = Ok r, su_io = Ok ()\<rparr>,
       \<lparr>su_next = None, su_tx = tx', su_sent = Ok (), su_answer = Err (), su_io = Ok ()\<rparr>]
       = Done [Submit (CliCommand req tx), WriteBytes bytes] \<and>
     (\<forall>chunks. concat chunks = bytes \<longrightarrow> receive (DaemonResponseDecoder_decode B) [] chunks = ([r], Waiting [])) \<and>
     snd (cli_main B show_err cmd (Ok ()) (Ok ()) (Some (Ok r))) = handle_response r"
proof (intro exI conjI allI impI)
  note enc = bytes_crate.request_encode_wire [OF assms(1,3)] bytes_crate.response_encode_wire [OF assms(1,4)]
  show "fst (cli_main B show_err cmd (Ok ()) (Ok ()) next) = request_wire req" for "next"
    by (simp add: cli_main_def assms(2) request_send_def enc)
  show "receive (DaemonRequestDecoder_decode B) [] chunks = ([req], Waiting [])" if "concat chunks = request_wire req" for chunks
    by (rule request_receive_one [OF assms(1,3) that])
  show "handle_stream B [\<lparr>su_next = Some (Ok req), su_tx = tx, su_sent = Ok (), su_answer = Ok r, su_io = Ok ()\<rparr>,
       \<lparr>su_next = None, su_tx = tx', su_sent = Ok (), su_answer = Err (), su_io = Ok ()\<rparr>]
       = Done [Submit (CliCommand req tx), WriteBytes (response_wire r)]"
    by (simp add: writer_send_def enc)
  show "receive (DaemonResponseDecoder_decode B) [] chunks = ([r], Waiting [])" if "concat chunks = response_wire r" for chunks
    by (rule response_receive_one [OF assms(1,4) that])
  show "snd (cli_main B show_err cmd (Ok ()) (Ok ()) (Some (Ok r))) = handle_response r"
    by (simp add: cli_main_def assms(2) request_send_def enc)
qed

theorem control_session_witness:
  "\<exists>sent bytes.
     fst (cli_main bytes_ref (\<lambda>_. []) (CmdReset (lit ''a'')) (Ok ()) (Ok ()) (Some (Ok ResetOk))) = sent \<and>
     receive (DaemonRequestDecoder_decode bytes_ref) [] [take 1 sent, drop 1 sent] = ([ReqReset (lit ''a'')], Waiting []) \<and>
     handle_stream bytes_ref [\<lparr>su_next = Some (Ok (ReqReset (lit ''a''))), su_tx = 1, su_sent = Ok (), su_answer = Ok ResetOk,
         su_io = Ok ()\<rparr>, \<lparr>su_next = None, su_tx = 2, su_sent = Ok (), su_answer = Err (), su_io = Ok ()\<rparr>]
       = Done [Submit (CliCommand (ReqReset (lit ''a'')) 1), WriteBytes bytes] \<and>
     receive (DaemonResponseDecoder_decode bytes_ref) [] [bytes] = ([ResetOk], Waiting [])"
proof -
  have cmd: "cli_message (CmdReset (lit ''a'')) = Ok (ReqReset (lit ''a''))" "request_ok (ReqReset (lit ''a''))"
    "response_ok ResetOk"
    by (simp_all add: cli_message_def str_ok_def lit_def utf8_valid_ascii)
  have pieces: "concat [take 1 xs, drop 1 xs] = xs" "concat [xs] = xs" for xs :: "u8 list" by simp_all
  show ?thesis
    using control_session [OF ref.bytes_crate_axioms cmd, of "\<lambda>_. []" 1 2] pieces by metis
qed

end
